theory Spec2Isabelle
  imports Complex_Main
begin

section \<open>Tides and currents playback: the data model\<close>

text \<open>
  The program \<^verbatim>\<open>allCombined_TridentPier.py\<close> is one script: it fetches six JSON
  documents, pools their timestamps, sizes the time axis of a chart and replays the
  records into six line series.  The embedding follows the script top to bottom.

  An exception of the script is a value of \<open>py_error\<close>; \<open>KeyError\<close> carries the key;
  \<open>TypeError\<close> is what pandas raises when a tz-naive and a tz-aware timestamp are
  ordered.
  \<open>FetchFailure\<close> stands for whatever \<^verbatim>\<open>requests.get(url)\<close> or
  \<^verbatim>\<open>response.json()\<close> raises, \<open>DateParseError\<close> for what
  \<^verbatim>\<open>pd.to_datetime\<close> raises on a stamp it cannot read.
\<close>

datatype py_error =
    KeyError string
  | IndexError
  | ValueError
  | NameError
  | TypeError
  | DateParseError
  | FetchFailure

text \<open>
  A record of the API is a JSON object whose members are strings
  (\<^verbatim>\<open>{"t": "2024-10-08 00:00", "s": "2.5", ...}\<close>).  A character of a string is a
  code point below 256, the range of the type \<open>char\<close>.  A response is a JSON object;
  the script tests it for the members \<^verbatim>\<open>data\<close> and \<^verbatim>\<open>predictions\<close> only and
  reads nothing else of it, so a response is a map from member names to record arrays
  (what any other member holds is never read).
\<close>

type_synonym entry = "string \<rightharpoonup> string"
type_synonym response = "string \<rightharpoonup> entry list"

text \<open>Python's \<^verbatim>\<open>d[k]\<close> on a dict and \<^verbatim>\<open>xs[i]\<close> on a list, for \<open>i\<close> drawn from a
  \<^verbatim>\<open>range\<close> (so never negative).\<close>

definition py_getitem :: "(string \<rightharpoonup> 'v) \<Rightarrow> string \<Rightarrow> py_error + 'v" where
  "py_getitem d k = (case d k of None \<Rightarrow> Inl (KeyError k) | Some v \<Rightarrow> Inr v)"

definition py_index :: "'a list \<Rightarrow> nat \<Rightarrow> py_error + 'a" where
  "py_index xs i = (if i < length xs then Inr (xs ! i) else Inl IndexError)"

definition py_range :: "nat \<Rightarrow> nat list" where
  "py_range n = [0..<n]"

subsection \<open>The builtin \<^verbatim>\<open>float\<close> on a string\<close>

text \<open>
  \<^verbatim>\<open>float(s)\<close> first rewrites a string that is not pure ASCII: a character below
  127 is kept, a Unicode white space becomes a blank, a Unicode decimal digit becomes
  its ASCII digit, and at any other character the string is cut and ends in \<^verbatim>\<open>?\<close>.
  Of the code points from 127 to 255 two are white space, NEL (0x85) and NBSP (0xA0),
  and none is a decimal digit.  Then the blanks of C, the characters 9 to 13 and 32,
  are stripped from both ends (the separators 0x1C to 0x1F are not); then come an
  optional sign and either \<^verbatim>\<open>inf\<close>, \<^verbatim>\<open>infinity\<close>, \<^verbatim>\<open>nan\<close> (in any case) or a decimal
  number \<^verbatim>\<open>[digitpart] "." digitpart | digitpart ["."]\<close> with an optional exponent,
  where \<^verbatim>\<open>digitpart\<close> is \<^verbatim>\<open>digit (["_"] digit)*\<close>; anything else raises ValueError.
  A literal beyond the range of a double gives an infinity.  \<open>Finite q\<close> stands for
  the double nearest to \<open>q\<close>.
\<close>

datatype pyfloat = Finite real | PosInf | NegInf | NaN

definition is_finite :: "pyfloat \<Rightarrow> bool" where
  "is_finite y = (case y of Finite _ \<Rightarrow> True | _ \<Rightarrow> False)"

definition is_space :: "char \<Rightarrow> bool" where
  "is_space c = (c = CHR '' '' \<or> (9 \<le> (of_char c :: nat) \<and> (of_char c :: nat) \<le> 13))"

definition unicode_space :: "char \<Rightarrow> bool" where
  "unicode_space c = ((of_char c :: nat) = 133 \<or> (of_char c :: nat) = 160)"

fun transform :: "string \<Rightarrow> string" where
  "transform [] = []"
| "transform (c # cs) =
     (if (of_char c :: nat) < 127 then c # transform cs
      else if unicode_space c then CHR '' '' # transform cs
      else ''?'')"

definition to_ascii :: "string \<Rightarrow> string" where
  "to_ascii s = (if list_all (\<lambda>c. (of_char c :: nat) < 128) s then s else transform s)"

definition is_digit :: "char \<Rightarrow> bool" where
  "is_digit c = (48 \<le> (of_char c :: nat) \<and> (of_char c :: nat) \<le> 57)"

definition digit_val :: "char \<Rightarrow> nat" where
  "digit_val c = of_char c - 48"

definition lower :: "char \<Rightarrow> char" where
  "lower c = (if 65 \<le> (of_char c :: nat) \<and> (of_char c :: nat) \<le> 90
     then char_of ((of_char c :: nat) + 32) else c)"

definition strip :: "string \<Rightarrow> string" where
  "strip s = rev (dropWhile is_space (rev (dropWhile is_space s)))"

fun digits_tail :: "string \<Rightarrow> string \<times> string" where
  "digits_tail [] = ([], [])"
| "digits_tail (c # cs) =
     (if is_digit c then (case digits_tail cs of (ds, r) \<Rightarrow> (c # ds, r))
      else if c = CHR ''_'' then
        (case cs of
           [] \<Rightarrow> ([], c # cs)
         | d # cs' \<Rightarrow>
             if is_digit d then (case digits_tail cs' of (ds, r) \<Rightarrow> (d # ds, r))
             else ([], c # cs))
      else ([], c # cs))"

definition digitpart :: "string \<Rightarrow> (string \<times> string) option" where
  "digitpart s =
     (case s of
        [] \<Rightarrow> None
      | c # cs \<Rightarrow>
          if is_digit c then (case digits_tail cs of (ds, r) \<Rightarrow> Some (c # ds, r))
          else None)"

definition nat_of_digits :: "string \<Rightarrow> nat" where
  "nat_of_digits ds = foldl (\<lambda>n c. 10 * n + digit_val c) 0 ds"

text \<open>The mantissa: integer digits, fraction digits and the rest of the input.\<close>

definition number :: "string \<Rightarrow> (string \<times> string \<times> string) option" where
  "number s =
     (case digitpart s of
        Some (ip, r) \<Rightarrow>
          (case r of
             [] \<Rightarrow> Some (ip, [], r)
           | c # r' \<Rightarrow>
               if c = CHR ''.'' then
                 (case digitpart r' of
                    Some (fp, r'') \<Rightarrow> Some (ip, fp, r'')
                  | None \<Rightarrow> Some (ip, [], r'))
               else Some (ip, [], r))
      | None \<Rightarrow>
          (case s of
             [] \<Rightarrow> None
           | c # r' \<Rightarrow>
               if c = CHR ''.'' then
                 (case digitpart r' of
                    Some (fp, r'') \<Rightarrow> Some ([], fp, r'')
                  | None \<Rightarrow> None)
               else None))"

text \<open>The exponent of what follows the mantissa; nothing may follow the exponent.\<close>

definition exponent :: "string \<Rightarrow> int option" where
  "exponent r =
     (case r of
        [] \<Rightarrow> Some 0
      | c # r' \<Rightarrow>
          if c = CHR ''e'' \<or> c = CHR ''E'' then
            (case r' of
               [] \<Rightarrow> None
             | sg # r'' \<Rightarrow>
                 (case digitpart (if sg = CHR ''+'' \<or> sg = CHR ''-'' then r'' else r') of
                    Some (ds, []) \<Rightarrow>
                      Some (if sg = CHR ''-'' then - int (nat_of_digits ds)
                            else int (nat_of_digits ds))
                  | _ \<Rightarrow> None))
          else None)"

definition scale10 :: "real \<Rightarrow> int \<Rightarrow> real" where
  "scale10 m e = (if 0 \<le> e then m * 10 ^ nat e else m / 10 ^ nat (- e))"

definition to_double :: "real \<Rightarrow> pyfloat" where
  "to_double q =
     (if \<bar>q\<bar> < 2 ^ 1024 - 2 ^ 970 then Finite q
      else if 0 < q then PosInf else NegInf)"

definition negate :: "pyfloat \<Rightarrow> pyfloat" where
  "negate y = (case y of Finite q \<Rightarrow> Finite (- q) | PosInf \<Rightarrow> NegInf
     | NegInf \<Rightarrow> PosInf | NaN \<Rightarrow> NaN)"

definition abs_float :: "string \<Rightarrow> py_error + pyfloat" where
  "abs_float u =
     (if map lower u = ''inf'' \<or> map lower u = ''infinity'' then Inr PosInf
      else if map lower u = ''nan'' then Inr NaN
      else
        (case number u of
           None \<Rightarrow> Inl ValueError
         | Some (ip, fp, r) \<Rightarrow>
             (case exponent r of
                None \<Rightarrow> Inl ValueError
              | Some e \<Rightarrow>
                  Inr (to_double
                    (scale10 (real (nat_of_digits (ip @ fp))) (e - int (length fp)))))))"

definition py_float :: "string \<Rightarrow> py_error + pyfloat" where
  "py_float s =
     (case strip (to_ascii s) of
        [] \<Rightarrow> Inl ValueError
      | c # u \<Rightarrow>
          if c = CHR ''-'' then map_sum id negate (abs_float u)
          else if c = CHR ''+'' then abs_float u
          else abs_float (c # u))"

subsection \<open>Timestamps\<close>

text \<open>
  What \<^verbatim>\<open>pd.to_datetime\<close> returns for a string: \<^verbatim>\<open>NaT\<close>, or a Timestamp, which is
  tz-aware or tz-naive and has a \<^verbatim>\<open>value\<close>, the nanoseconds since the epoch (in UTC).
  The \<^verbatim>\<open>value\<close> of \<^verbatim>\<open>NaT\<close> is the least 64-bit integer.
\<close>

datatype stamp = NaT | Stamp bool int

definition value_of :: "stamp \<Rightarrow> int" where
  "value_of t = (case t of NaT \<Rightarrow> - (2 ^ 63) | Stamp aware v \<Rightarrow> v)"

text \<open>
  \<^verbatim>\<open>pd.to_datetime\<close> is a library function: the script is modelled for any
  reader \<open>to_datetime :: string \<Rightarrow> stamp option\<close> of stamps, which gives \<open>None\<close> where
  pandas raises.  \<open>noaa_datetime\<close> is the reader used where a concrete run is
  evaluated, on three shapes of stamp: the layout the API sends,
  \<^verbatim>\<open>YYYY-MM-DD HH:MM\<close>, read as a tz-naive instant; the same followed by \<^verbatim>\<open>Z\<close>, read as
  a tz-aware instant in UTC; and the empty string, read as \<^verbatim>\<open>NaT\<close>.
\<close>

definition days_from_civil :: "int \<Rightarrow> int \<Rightarrow> int \<Rightarrow> int" where
  "days_from_civil y m d =
     (let y' = (if m \<le> 2 then y - 1 else y);
          era = y' div 400;
          yoe = y' - era * 400;
          doy = (153 * (if 2 < m then m - 3 else m + 9) + 2) div 5 + d - 1;
          doe = yoe * 365 + yoe div 4 - yoe div 100 + doy
      in era * 146097 + doe - 719468)"

definition days_in_month :: "int \<Rightarrow> int \<Rightarrow> int" where
  "days_in_month y m =
     (if m = 2 then (if y mod 4 = 0 \<and> (y mod 100 \<noteq> 0 \<or> y mod 400 = 0) then 29 else 28)
      else if m = 4 \<or> m = 6 \<or> m = 9 \<or> m = 11 then 30 else 31)"

definition field :: "string \<Rightarrow> nat \<Rightarrow> nat \<Rightarrow> int" where
  "field s i n = int (nat_of_digits (take n (drop i s)))"

definition minute_layout :: "string \<Rightarrow> int option" where
  "minute_layout s =
     (let y = field s 0 4; mo = field s 5 2; d = field s 8 2;
          h = field s 11 2; mi = field s 14 2
      in if length s = 16
            \<and> list_all is_digit (take 4 s @ take 2 (drop 5 s) @ take 2 (drop 8 s)
                  @ take 2 (drop 11 s) @ take 2 (drop 14 s))
            \<and> s ! 4 = CHR ''-'' \<and> s ! 7 = CHR ''-'' \<and> s ! 10 = CHR '' ''
            \<and> s ! 13 = CHR '':''
            \<and> 1678 \<le> y \<and> y \<le> 2261 \<and> 1 \<le> mo \<and> mo \<le> 12
            \<and> 1 \<le> d \<and> d \<le> days_in_month y mo \<and> h \<le> 23 \<and> mi \<le> 59
         then Some (((days_from_civil y mo d * 24 + h) * 60 + mi) * 60 * 10 ^ 9)
         else None)"

definition noaa_datetime :: "string \<Rightarrow> stamp option" where
  "noaa_datetime s =
     (if s = '''' then Some NaT
      else if length s = 17 \<and> last s = CHR ''Z''
        then map_option (Stamp True) (minute_layout (butlast s))
      else map_option (Stamp False) (minute_layout s))"

text \<open>\<^verbatim>\<open>timestamp.value / 10**6\<close>: true division, whose float result is the correctly
  rounded quotient; the model keeps the quotient itself (rounding is monotone, so the
  order of two converted instants is the order of the quotients).\<close>

definition ms_of :: "stamp \<Rightarrow> real" where
  "ms_of t = real_of_int (value_of t) / 10 ^ 6"

section \<open>The fetcher\<close>

definition api_host :: string where
  "api_host = ''https://api.tidesandcurrents.noaa.gov/api/prod/datagetter''"

definition urls :: "(string \<times> string) list" where
  "urls =
    [(''wind'', ''https://api.tidesandcurrents.noaa.gov/api/prod/datagetter?begin_date=20241008&end_date=20241012&station=8721604&product=wind&datum=MHHW&time_zone=gmt&units=metric&format=json''),
     (''air_pressure'', ''https://api.tidesandcurrents.noaa.gov/api/prod/datagetter?begin_date=20241008&end_date=20241012&station=8721604&product=air_pressure&datum=MHHW&time_zone=gmt&units=metric&format=json''),
     (''water_level'', ''https://api.tidesandcurrents.noaa.gov/api/prod/datagetter?begin_date=20241008&end_date=20241012&station=8721604&product=water_level&datum=MHHW&time_zone=gmt&units=metric&format=json''),
     (''tide_predictions'', ''https://api.tidesandcurrents.noaa.gov/api/prod/datagetter?begin_date=20241008&end_date=20241012&station=8721604&product=predictions&datum=MHHW&time_zone=gmt&units=metric&format=json''),
     (''water_temperature'', ''https://api.tidesandcurrents.noaa.gov/api/prod/datagetter?begin_date=20241008&end_date=20241012&station=8721604&product=water_temperature&datum=MHHW&time_zone=gmt&units=metric&format=json''),
     (''air_temperature'', ''https://api.tidesandcurrents.noaa.gov/api/prod/datagetter?begin_date=20241008&end_date=20241012&station=8721604&product=air_temperature&datum=MHHW&time_zone=gmt&units=metric&format=json'')]"

text \<open>How a URL is made of the host and a list of query parameters, to state what
  the six literals carry.\<close>

fun query_string :: "(string \<times> string) list \<Rightarrow> string" where
  "query_string [] = []"
| "query_string [(k, v)] = k @ ''='' @ v"
| "query_string ((k, v) # kv # kvs) = k @ ''='' @ v @ ''&'' @ query_string (kv # kvs)"

definition request_url :: "string \<Rightarrow> string" where
  "request_url product =
     api_host @ ''?'' @ query_string
       [(''begin_date'', ''20241008''), (''end_date'', ''20241012''),
        (''station'', ''8721604''), (''product'', product), (''datum'', ''MHHW''),
        (''time_zone'', ''gmt''), (''units'', ''metric''), (''format'', ''json'')]"

definition product_of :: "string \<Rightarrow> string" where
  "product_of param = (if param = ''tide_predictions'' then ''predictions'' else param)"

text \<open>
  What the script prints and does to the chart, in order: the two \<^verbatim>\<open>print\<close> calls
  (the parameter, and the timestamp of the record skipped), \<^verbatim>\<open>series.add\<close> on the
  series of a parameter, and \<^verbatim>\<open>time.sleep(0.03)\<close> with its delay in milliseconds.
\<close>

datatype event =
    PrintUnexpected string
  | PrintMissing string stamp
  | AddPoint string real pyfloat
  | Sleep nat

record fetched =
  data_store :: "string \<rightharpoonup> entry list"
  timestamps :: "stamp list"
  printed :: "event list"

text \<open>\<^verbatim>\<open>pd.to_datetime(entry['t'])\<close>.\<close>

definition stamp_of :: "(string \<Rightarrow> stamp option) \<Rightarrow> entry \<Rightarrow> py_error + stamp" where
  "stamp_of to_datetime entry =
     (case py_getitem entry ''t'' of
        Inl e \<Rightarrow> Inl e
      | Inr t \<Rightarrow>
          (case to_datetime t of None \<Rightarrow> Inl DateParseError | Some ts \<Rightarrow> Inr ts))"

text \<open>The inner loop of the fetcher: one timestamp appended per record, until a
  record raises.  A loop returns the state it reached and the exception, if any.\<close>

fun collect :: "(string \<Rightarrow> stamp option) \<Rightarrow> entry list \<Rightarrow> fetched
    \<Rightarrow> fetched \<times> py_error option" where
  "collect to_datetime [] st = (st, None)"
| "collect to_datetime (entry # entries) st =
     (case stamp_of to_datetime entry of
        Inl e \<Rightarrow> (st, Some e)
      | Inr ts \<Rightarrow> collect to_datetime entries (st\<lparr>timestamps := timestamps st @ [ts]\<rparr>))"

text \<open>One turn of \<^verbatim>\<open>for param, url in urls.items()\<close>; \<open>http url\<close> is the parsed
  body of the GET, \<open>None\<close> when the request or the JSON decoding raises.\<close>

definition fetch_step :: "(string \<Rightarrow> stamp option) \<Rightarrow> (string \<Rightarrow> response option)
    \<Rightarrow> fetched \<Rightarrow> string \<times> string \<Rightarrow> fetched \<times> py_error option" where
  "fetch_step to_datetime http st pu =
     (case pu of (param, url) \<Rightarrow>
        (case http url of
           None \<Rightarrow> (st, Some FetchFailure)
         | Some data \<Rightarrow>
             (case data ''data'' of
                Some records \<Rightarrow>
                  collect to_datetime records
                    (st\<lparr>data_store := (data_store st)(param \<mapsto> records)\<rparr>)
              | None \<Rightarrow>
                  (case data ''predictions'' of
                     Some records \<Rightarrow>
                       collect to_datetime records
                         (st\<lparr>data_store := (data_store st)(param \<mapsto> records)\<rparr>)
                   | None \<Rightarrow>
                       (st\<lparr>printed := printed st @ [PrintUnexpected param]\<rparr>, None)))))"

fun fetch_loop :: "(string \<Rightarrow> stamp option) \<Rightarrow> (string \<Rightarrow> response option)
    \<Rightarrow> fetched \<Rightarrow> (string \<times> string) list \<Rightarrow> fetched \<times> py_error option" where
  "fetch_loop to_datetime http st [] = (st, None)"
| "fetch_loop to_datetime http st (pu # rest) =
     (case fetch_step to_datetime http st pu of
        (st', Some e) \<Rightarrow> (st', Some e)
      | (st', None) \<Rightarrow> fetch_loop to_datetime http st' rest)"

definition start :: fetched where
  "start = \<lparr>data_store = Map.empty, timestamps = [], printed = []\<rparr>"

definition fetch_all :: "(string \<Rightarrow> stamp option) \<Rightarrow> (string \<Rightarrow> response option)
    \<Rightarrow> fetched \<times> py_error option" where
  "fetch_all to_datetime http = fetch_loop to_datetime http start urls"

section \<open>The time-range aggregator\<close>

text \<open>The comparisons \<^verbatim>\<open>a < b\<close> and \<^verbatim>\<open>a > b\<close> of pandas: with \<^verbatim>\<open>NaT\<close> on either side
  the answer is False; a tz-naive against a tz-aware Timestamp raises TypeError;
  otherwise the values decide.\<close>

definition stamp_lt :: "stamp \<Rightarrow> stamp \<Rightarrow> py_error + bool" where
  "stamp_lt a b =
     (case a of
        NaT \<Rightarrow> Inr False
      | Stamp aware_a x \<Rightarrow>
          (case b of
             NaT \<Rightarrow> Inr False
           | Stamp aware_b y \<Rightarrow>
               if aware_a = aware_b then Inr (x < y) else Inl TypeError))"

definition stamp_gt :: "stamp \<Rightarrow> stamp \<Rightarrow> py_error + bool" where
  "stamp_gt a b =
     (case a of
        NaT \<Rightarrow> Inr False
      | Stamp aware_a x \<Rightarrow>
          (case b of
             NaT \<Rightarrow> Inr False
           | Stamp aware_b y \<Rightarrow>
               if aware_a = aware_b then Inr (y < x) else Inl TypeError))"

text \<open>\<^verbatim>\<open>min\<close> and \<^verbatim>\<open>max\<close> of a list: ValueError on the empty list; otherwise the
  first element is kept and each later item replaces it when \<^verbatim>\<open>item < kept\<close>
  (\<^verbatim>\<open>item > kept\<close> for \<^verbatim>\<open>max\<close>) holds, an exception of the comparison ending the
  search.\<close>

fun min_from :: "stamp \<Rightarrow> stamp list \<Rightarrow> py_error + stamp" where
  "min_from m [] = Inr m"
| "min_from m (x # xs) =
     (case stamp_lt x m of
        Inl e \<Rightarrow> Inl e
      | Inr smaller \<Rightarrow> min_from (if smaller then x else m) xs)"

fun max_from :: "stamp \<Rightarrow> stamp list \<Rightarrow> py_error + stamp" where
  "max_from m [] = Inr m"
| "max_from m (x # xs) =
     (case stamp_gt x m of
        Inl e \<Rightarrow> Inl e
      | Inr larger \<Rightarrow> max_from (if larger then x else m) xs)"

definition py_min :: "stamp list \<Rightarrow> py_error + stamp" where
  "py_min xs = (case xs of [] \<Rightarrow> Inl ValueError | x # r \<Rightarrow> min_from x r)"

definition py_max :: "stamp list \<Rightarrow> py_error + stamp" where
  "py_max xs = (case xs of [] \<Rightarrow> Inl ValueError | x # r \<Rightarrow> max_from x r)"

definition time_range :: "stamp list \<Rightarrow> py_error + stamp \<times> stamp" where
  "time_range ts =
     (case py_min ts of
        Inl e \<Rightarrow> Inl e
      | Inr min_time \<Rightarrow>
          (case py_max ts of
             Inl e \<Rightarrow> Inl e
           | Inr max_time \<Rightarrow> Inr (min_time, max_time)))"

section \<open>The playback renderer\<close>

text \<open>\<^verbatim>\<open>series_list\<close> gets one series per key of \<^verbatim>\<open>urls\<close>, in the order of the
  dict, whatever the fetcher stored.  The titles, margins and placeholder intervals
  of the value axes do not bear on what is replayed and are left out.\<close>

definition series_list :: "string list" where
  "series_list = map fst urls"

text \<open>The body of the inner loop, for one parameter at one position: the event it
  ends in, or the exception it raises.  The last branch of the field choice is the
  script's missing \<^verbatim>\<open>else\<close>: no key of \<^verbatim>\<open>series_list\<close> reaches it.\<close>

definition value_str_of :: "string \<Rightarrow> entry \<Rightarrow> py_error + string" where
  "value_str_of param entry =
     (if param = ''wind'' then py_getitem entry ''s''
      else if param \<in> set [''air_pressure'', ''water_level'', ''tide_predictions'',
                ''water_temperature'', ''air_temperature'']
        then py_getitem entry ''v''
      else Inl NameError)"

definition play_entry :: "(string \<Rightarrow> stamp option) \<Rightarrow> (string \<rightharpoonup> entry list)
    \<Rightarrow> nat \<Rightarrow> string \<Rightarrow> py_error + event" where
  "play_entry to_datetime ds i param =
     (case py_getitem ds param of
        Inl e \<Rightarrow> Inl e
      | Inr records \<Rightarrow>
     (case py_index records i of
        Inl e \<Rightarrow> Inl e
      | Inr entry \<Rightarrow>
     (case stamp_of to_datetime entry of
        Inl e \<Rightarrow> Inl e
      | Inr timestamp \<Rightarrow>
     (case value_str_of param entry of
        Inl e \<Rightarrow> Inl e
      | Inr value_str \<Rightarrow>
          if value_str \<noteq> [] \<and> value_str \<noteq> '''' then
            (case py_float value_str of
               Inl e \<Rightarrow> Inl e
             | Inr y_value \<Rightarrow> Inr (AddPoint param (ms_of timestamp) y_value))
          else Inr (PrintMissing param timestamp)))))"

fun play_params :: "(string \<Rightarrow> stamp option) \<Rightarrow> (string \<rightharpoonup> entry list)
    \<Rightarrow> nat \<Rightarrow> string list \<Rightarrow> event list \<times> py_error option" where
  "play_params to_datetime ds i [] = ([], None)"
| "play_params to_datetime ds i (param # params) =
     (case play_entry to_datetime ds i param of
        Inl e \<Rightarrow> ([], Some e)
      | Inr ev \<Rightarrow>
          (case play_params to_datetime ds i params of (evs, r) \<Rightarrow> (ev # evs, r)))"

fun play_from :: "(string \<Rightarrow> stamp option) \<Rightarrow> (string \<rightharpoonup> entry list)
    \<Rightarrow> nat list \<Rightarrow> event list \<times> py_error option" where
  "play_from to_datetime ds [] = ([], None)"
| "play_from to_datetime ds (i # is) =
     (case play_params to_datetime ds i series_list of
        (evs, Some e) \<Rightarrow> (evs, Some e)
      | (evs, None) \<Rightarrow>
          (case play_from to_datetime ds is of (evs', r) \<Rightarrow> (evs @ Sleep 30 # evs', r)))"

definition playback :: "(string \<Rightarrow> stamp option) \<Rightarrow> (string \<rightharpoonup> entry list)
    \<Rightarrow> event list \<times> py_error option" where
  "playback to_datetime ds =
     (case py_getitem ds ''wind'' of
        Inl e \<Rightarrow> ([], Some e)
      | Inr wind \<Rightarrow> play_from to_datetime ds (py_range (length wind)))"

section \<open>The whole script\<close>

text \<open>What a run leaves behind: the Dataset, the interval set on the time axis (if
  the run got that far), everything printed and drawn, and the exception that ended
  the run, if one did.\<close>

record outcome =
  dataset :: "string \<rightharpoonup> entry list"
  x_interval :: "(real \<times> real) option"
  events :: "event list"
  raised :: "py_error option"

definition run :: "(string \<Rightarrow> stamp option) \<Rightarrow> (string \<Rightarrow> response option) \<Rightarrow> outcome" where
  "run to_datetime http =
     (case fetch_all to_datetime http of
        (st, Some e) \<Rightarrow>
          \<lparr>dataset = data_store st, x_interval = None, events = printed st, raised = Some e\<rparr>
      | (st, None) \<Rightarrow>
          (case time_range (timestamps st) of
             Inl e \<Rightarrow>
               \<lparr>dataset = data_store st, x_interval = None, events = printed st,
                raised = Some e\<rparr>
           | Inr (min_time, max_time) \<Rightarrow>
               (case playback to_datetime (data_store st) of
                  (evs, r) \<Rightarrow>
                    \<lparr>dataset = data_store st,
                     x_interval = Some (ms_of min_time, ms_of max_time),
                     events = printed st @ evs, raised = r\<rparr>)))"

text \<open>The points a series holds after the events \<open>evs\<close>, and what was logged as
  skipped for a parameter.\<close>

fun points_of :: "string \<Rightarrow> event list \<Rightarrow> (real \<times> pyfloat) list" where
  "points_of p [] = []"
| "points_of p (AddPoint q x y # evs) =
     (if q = p then (x, y) # points_of p evs else points_of p evs)"
| "points_of p (_ # evs) = points_of p evs"

fun skips_of :: "string \<Rightarrow> event list \<Rightarrow> stamp list" where
  "skips_of p [] = []"
| "skips_of p (PrintMissing q t # evs) =
     (if q = p then t # skips_of p evs else skips_of p evs)"
| "skips_of p (_ # evs) = skips_of p evs"

fun is_add :: "event \<Rightarrow> bool" where
  "is_add (AddPoint _ _ _) = True"
| "is_add _ = False"

section \<open>Predicates used to state the properties\<close>

text \<open>Two facts about the fetcher's state: every record stored has its timestamp
  in the pool, and every timestamp of the pool is that of a stored record.\<close>

definition pooled :: "(string \<Rightarrow> stamp option) \<Rightarrow> fetched \<Rightarrow> bool" where
  "pooled to_datetime st \<longleftrightarrow>
     (\<forall>p records e. data_store st p = Some records \<longrightarrow> e \<in> set records \<longrightarrow>
        (\<exists>t. stamp_of to_datetime e = Inr t \<and> t \<in> set (timestamps st)))"

definition sourced :: "(string \<Rightarrow> stamp option) \<Rightarrow> fetched \<Rightarrow> bool" where
  "sourced to_datetime st \<longleftrightarrow>
     (\<forall>t\<in>set (timestamps st). \<exists>p records e. data_store st p = Some records
         \<and> e \<in> set records \<and> stamp_of to_datetime e = Inr t)"

text \<open>A pool is proper when it holds no \<^verbatim>\<open>NaT\<close>; it is of one zone when its
  Timestamps are all tz-naive or all tz-aware.\<close>

definition proper :: "stamp list \<Rightarrow> bool" where
  "proper ts = list_all (\<lambda>t. t \<noteq> NaT) ts"

definition same_zone :: "stamp list \<Rightarrow> bool" where
  "same_zone ts =
     (list_all (\<lambda>t. case t of NaT \<Rightarrow> True | Stamp aware v \<Rightarrow> \<not> aware) ts
      \<or> list_all (\<lambda>t. case t of NaT \<Rightarrow> True | Stamp aware v \<Rightarrow> aware) ts)"

text \<open>The field that holds the value of a parameter, in the words of the spec: the
  speed field for the wind, the generic value field otherwise.\<close>

definition value_field :: "string \<Rightarrow> string" where
  "value_field param = (if param = ''wind'' then ''s'' else ''v'')"

text \<open>A record is well formed for a parameter when it has a timestamp that can be
  read and the value field of that parameter, empty or accepted by \<^verbatim>\<open>float\<close>: the
  Observation of the data model.\<close>

definition well_formed :: "(string \<Rightarrow> stamp option) \<Rightarrow> string \<Rightarrow> entry \<Rightarrow> bool" where
  "well_formed to_datetime param entry =
     ((case entry ''t'' of None \<Rightarrow> False | Some t \<Rightarrow> to_datetime t \<noteq> None) \<and>
      (case entry (value_field param) of
         None \<Rightarrow> False
       | Some v \<Rightarrow> v = '''' \<or> \<not> isl (py_float v)))"

text \<open>\<open>aligned\<close>: each of the six parameters has exactly \<open>n\<close> well-formed records.
  \<open>replayable\<close>: each has at least \<open>n\<close> records and the first \<open>n\<close> are well formed.\<close>

definition aligned :: "(string \<Rightarrow> stamp option) \<Rightarrow> (string \<rightharpoonup> entry list) \<Rightarrow> nat \<Rightarrow> bool" where
  "aligned to_datetime ds n =
     list_all (\<lambda>param. case ds param of
         None \<Rightarrow> False
       | Some records \<Rightarrow> length records = n
           \<and> list_all (well_formed to_datetime param) records) series_list"

definition replayable :: "(string \<Rightarrow> stamp option) \<Rightarrow> (string \<rightharpoonup> entry list) \<Rightarrow> nat \<Rightarrow> bool" where
  "replayable to_datetime ds n =
     list_all (\<lambda>param. case ds param of
         None \<Rightarrow> False
       | Some records \<Rightarrow> n \<le> length records
           \<and> list_all (well_formed to_datetime param) (take n records)) series_list"

text \<open>The events of one turn of the outer playback loop, before its pause; whether
  the value of a parameter is the empty string at a position; the event the inner
  loop's body ends in.\<close>

definition iteration :: "(string \<Rightarrow> stamp option) \<Rightarrow> (string \<rightharpoonup> entry list) \<Rightarrow> nat
    \<Rightarrow> event list" where
  "iteration to_datetime ds i = fst (play_params to_datetime ds i series_list)"

definition missing :: "(string \<rightharpoonup> entry list) \<Rightarrow> nat \<Rightarrow> string \<Rightarrow> bool" where
  "missing ds i param =
     (case ds param of
        None \<Rightarrow> False
      | Some records \<Rightarrow> (records ! i) (value_field param) = Some '''')"

definition shown :: "(string \<Rightarrow> stamp option) \<Rightarrow> (string \<rightharpoonup> entry list) \<Rightarrow> nat
    \<Rightarrow> string \<Rightarrow> event" where
  "shown to_datetime ds i param =
     (case play_entry to_datetime ds i param of Inr ev \<Rightarrow> ev | Inl _ \<Rightarrow> Sleep 0)"

text \<open>The decimal literals the API sends as values: an optional minus sign, at least
  one and at most 308 digits, and optionally a point followed by at least one digit;
  and the number such a literal denotes.\<close>

definition unsigned :: "string \<Rightarrow> string" where
  "unsigned v = (case v of [] \<Rightarrow> [] | c # u \<Rightarrow> if c = CHR ''-'' then u else v)"

definition decimal_literal :: "string \<Rightarrow> bool" where
  "decimal_literal v =
     (let ip = takeWhile is_digit (unsigned v); r = dropWhile is_digit (unsigned v)
      in ip \<noteq> [] \<and> length ip \<le> 308
         \<and> (r = [] \<or> (hd r = CHR ''.'' \<and> tl r \<noteq> [] \<and> list_all is_digit (tl r))))"

definition decimal_value :: "string \<Rightarrow> real" where
  "decimal_value v =
     (let ip = takeWhile is_digit (unsigned v); fp = tl (dropWhile is_digit (unsigned v));
          q = real (nat_of_digits (ip @ fp)) / 10 ^ length fp
      in if unsigned v = v then q else - q)"

section \<open>Sample inputs\<close>

text \<open>Two records as the API sends them (a speed \<^verbatim>\<open>s\<close> and a value \<^verbatim>\<open>v\<close>), the second
  with its value missing; the body the API sends when it has no data; and three
  servers: one that answers every request with the two records, one that has no data
  for the wind, one that has none for the air pressure.\<close>

definition sample_records :: "entry list" where
  "sample_records =
     [[''t'' \<mapsto> ''2024-10-08 00:00'', ''v'' \<mapsto> ''2.5'', ''s'' \<mapsto> ''2.5''],
      [''t'' \<mapsto> ''2024-10-08 00:06'', ''v'' \<mapsto> '''', ''s'' \<mapsto> '''']]"

definition sample_response :: response where
  "sample_response = [''data'' \<mapsto> sample_records]"

definition error_response :: response where
  "error_response = [''error'' \<mapsto> []]"

definition http_ok :: "string \<Rightarrow> response option" where
  "http_ok url = Some sample_response"

definition http_no_wind :: "string \<Rightarrow> response option" where
  "http_no_wind url =
     (if url = request_url ''wind'' then Some error_response else Some sample_response)"

definition http_no_pressure :: "string \<Rightarrow> response option" where
  "http_no_pressure url =
     (if url = request_url ''air_pressure'' then Some error_response
      else Some sample_response)"

definition sample_store :: "string \<rightharpoonup> entry list" where
  "sample_store = map_of (map (\<lambda>param. (param, sample_records)) series_list)"

text \<open>The wind series of the spec's example, with \<open>T0\<close> and \<open>T1\<close> two stamps of the
  API; a Dataset that holds it beside five series of the two sample records; and one
  that holds it beside five series without a record.\<close>

definition wind_records :: "entry list" where
  "wind_records =
     [[''t'' \<mapsto> ''2024-10-08 00:00'', ''s'' \<mapsto> ''2.5''],
      [''t'' \<mapsto> ''2024-10-08 00:06'', ''s'' \<mapsto> '''']]"

definition wind_store :: "string \<rightharpoonup> entry list" where
  "wind_store =
     map_of ((''wind'', wind_records) # map (\<lambda>param. (param, sample_records)) (tl series_list))"

definition short_store :: "string \<rightharpoonup> entry list" where
  "short_store =
     map_of ((''wind'', wind_records) # map (\<lambda>param. (param, [])) (tl series_list))"

text \<open>A Dataset of six series of one record whose value is not a number; a server
  whose second record has an empty timestamp; and one whose second record has a
  tz-aware timestamp after a tz-naive first.\<close>

definition garbled_records :: "entry list" where
  "garbled_records =
     [[''t'' \<mapsto> ''2024-10-08 00:00'', ''v'' \<mapsto> ''abc'', ''s'' \<mapsto> ''abc'']]"

definition garbled_store :: "string \<rightharpoonup> entry list" where
  "garbled_store = map_of (map (\<lambda>param. (param, garbled_records)) series_list)"

definition http_blank_stamp :: "string \<Rightarrow> response option" where
  "http_blank_stamp url =
     Some [''data'' \<mapsto>
       [[''t'' \<mapsto> ''2024-10-08 00:00'', ''v'' \<mapsto> ''2.5'', ''s'' \<mapsto> ''2.5''],
        [''t'' \<mapsto> '''', ''v'' \<mapsto> ''2.5'', ''s'' \<mapsto> ''2.5'']]]"

definition http_mixed_zone :: "string \<Rightarrow> response option" where
  "http_mixed_zone url =
     Some [''data'' \<mapsto>
       [[''t'' \<mapsto> ''2024-10-08 00:00'', ''v'' \<mapsto> ''2.5'', ''s'' \<mapsto> ''2.5''],
        [''t'' \<mapsto> ''2024-10-08 00:06Z'', ''v'' \<mapsto> ''2.5'', ''s'' \<mapsto> ''2.5'']]]"

section \<open>Evaluation rules\<close>

lemmas float_eval =
  py_float_def to_ascii_def strip_def is_space_def unicode_space_def abs_float_def
  number_def digitpart_def is_digit_def exponent_def nat_of_digits_def digit_val_def
  lower_def to_double_def scale10_def negate_def

lemmas stamp_eval =
  noaa_datetime_def minute_layout_def field_def days_in_month_def days_from_civil_def
  nat_of_digits_def digit_val_def is_digit_def Let_def

lemmas run_eval =
  run_def fetch_all_def start_def urls_def fetch_step_def stamp_of_def py_getitem_def
  time_range_def py_min_def py_max_def stamp_lt_def stamp_gt_def playback_def
  py_range_def series_list_def play_entry_def py_index_def value_str_of_def ms_of_def
  value_of_def upt_rec

lemma stamp0: "noaa_datetime ''2024-10-08 00:00'' = Some (Stamp False 1728345600000000000)"
  by (simp add: stamp_eval)

lemma stamp1: "noaa_datetime ''2024-10-08 00:06'' = Some (Stamp False 1728345960000000000)"
  by (simp add: stamp_eval)

lemma stamp1z: "noaa_datetime ''2024-10-08 00:06Z'' = Some (Stamp True 1728345960000000000)"
  by (simp add: stamp_eval)

lemma stamp_blank: "noaa_datetime '''' = Some NaT"
  by (simp add: noaa_datetime_def)

lemma float_2_5: "py_float ''2.5'' = Inr (Finite 2.5)"
  by (simp add: float_eval)

lemma float_abc: "py_float ''abc'' = Inl ValueError"
  by (simp add: float_eval)

lemma float_fs: "py_float (CHR 0x1C # ''2.5'') = Inl ValueError"
  by (simp add: float_eval)

lemma float_nbsp: "py_float (CHR 0xA0 # ''2.5'') = Inr (Finite 2.5)"
  by (simp add: float_eval)

section \<open>The request URLs\<close>

text \<open>
  C8, as amended.  Each of the six URLs is the fixed host followed by the eight query
  parameters \<^verbatim>\<open>begin_date=20241008\<close>, \<^verbatim>\<open>end_date=20241012\<close>, \<^verbatim>\<open>station=8721604\<close>,
  \<^verbatim>\<open>product=...\<close>, \<^verbatim>\<open>datum=MHHW\<close>, \<^verbatim>\<open>time_zone=gmt\<close>, \<^verbatim>\<open>units=metric\<close>,
  \<^verbatim>\<open>format=json\<close>, in this order and with nothing else; the product is the
  parameter's own name for five of them and \<^verbatim>\<open>predictions\<close> for the parameter
  \<^verbatim>\<open>tide_predictions\<close>.
\<close>

theorem urls_carry_fixed_query:
  "urls = map (\<lambda>param. (param, request_url (product_of param)))
     [''wind'', ''air_pressure'', ''water_level'', ''tide_predictions'',
      ''water_temperature'', ''air_temperature'']"
  by (simp add: urls_def request_url_def product_of_def api_host_def)

text \<open>
  C8 as stated fails: the URL stored under \<^verbatim>\<open>tide_predictions\<close> asks for the product
  \<^verbatim>\<open>predictions\<close>, which is not the URL with the parameter's own name as product.
\<close>

theorem tide_predictions_product_counterexample:
  "map_of urls ''tide_predictions'' = Some (request_url ''predictions'')
     \<and> request_url ''predictions'' \<noteq> request_url ''tide_predictions''"
  by (simp add: urls_def request_url_def api_host_def)

section \<open>The comparisons and the extremes of a pool\<close>

lemma stamp_lt_proper:
  "a \<noteq> NaT \<Longrightarrow> b \<noteq> NaT \<Longrightarrow> stamp_lt a b = Inr r \<Longrightarrow> r = (value_of a < value_of b)"
  by (cases a; cases b) (auto simp: stamp_lt_def value_of_def split: if_splits)

lemma stamp_gt_proper:
  "a \<noteq> NaT \<Longrightarrow> b \<noteq> NaT \<Longrightarrow> stamp_gt a b = Inr r \<Longrightarrow> r = (value_of b < value_of a)"
  by (cases a; cases b) (auto simp: stamp_gt_def value_of_def split: if_splits)

lemma stamp_lt_error: "stamp_lt a b = Inl e \<Longrightarrow> e = TypeError"
  by (cases a; cases b) (auto simp: stamp_lt_def split: if_splits)

lemma stamp_gt_error: "stamp_gt a b = Inl e \<Longrightarrow> e = TypeError"
  by (cases a; cases b) (auto simp: stamp_gt_def split: if_splits)

lemma same_zone_lt: "same_zone (m # x # xs) \<Longrightarrow> \<exists>r. stamp_lt x m = Inr r"
  by (cases x; cases m) (auto simp: same_zone_def stamp_lt_def)

lemma same_zone_gt: "same_zone (m # x # xs) \<Longrightarrow> \<exists>r. stamp_gt x m = Inr r"
  by (cases x; cases m) (auto simp: same_zone_def stamp_gt_def)

lemma same_zone_drop:
  "same_zone (m # x # xs) \<Longrightarrow> same_zone (m # xs) \<and> same_zone (x # xs)"
  by (auto simp: same_zone_def)

lemma min_from_mem: "min_from m xs = Inr r \<Longrightarrow> r \<in> insert m (set xs)"
proof (induction xs arbitrary: m)
  case Nil
  then show ?case by simp
next
  case (Cons x xs)
  from Cons.prems obtain b where "min_from (if b then x else m) xs = Inr r"
    by (auto split: sum.splits)
  from Cons.IH [OF this] show ?case by (auto split: if_splits)
qed

lemma max_from_mem: "max_from m xs = Inr r \<Longrightarrow> r \<in> insert m (set xs)"
proof (induction xs arbitrary: m)
  case Nil
  then show ?case by simp
next
  case (Cons x xs)
  from Cons.prems obtain b where "max_from (if b then x else m) xs = Inr r"
    by (auto split: sum.splits)
  from Cons.IH [OF this] show ?case by (auto split: if_splits)
qed

lemma min_from_le:
  "min_from m xs = Inr r \<Longrightarrow> proper (m # xs) \<Longrightarrow>
     value_of r \<le> value_of m \<and> (\<forall>x\<in>set xs. value_of r \<le> value_of x)"
proof (induction xs arbitrary: m)
  case Nil
  then show ?case by simp
next
  case (Cons x xs)
  from Cons.prems(2) have pm: "m \<noteq> NaT" and px: "x \<noteq> NaT" and pxs: "proper xs"
    by (simp_all add: proper_def)
  from Cons.prems(1) obtain b where b: "stamp_lt x m = Inr b"
    and rest: "min_from (if b then x else m) xs = Inr r"
    by (auto split: sum.splits)
  from stamp_lt_proper [OF px pm b] have bv: "b = (value_of x < value_of m)" .
  have "proper ((if b then x else m) # xs)"
    using pm px pxs by (simp add: proper_def)
  from Cons.IH [OF rest this]
  have ih: "value_of r \<le> value_of (if b then x else m)"
    "\<forall>y\<in>set xs. value_of r \<le> value_of y"
    by simp_all
  from ih(1) bv have "value_of r \<le> value_of m" "value_of r \<le> value_of x"
    by (auto split: if_splits)
  with ih(2) show ?case by simp
qed

lemma max_from_ge:
  "max_from m xs = Inr r \<Longrightarrow> proper (m # xs) \<Longrightarrow>
     value_of m \<le> value_of r \<and> (\<forall>x\<in>set xs. value_of x \<le> value_of r)"
proof (induction xs arbitrary: m)
  case Nil
  then show ?case by simp
next
  case (Cons x xs)
  from Cons.prems(2) have pm: "m \<noteq> NaT" and px: "x \<noteq> NaT" and pxs: "proper xs"
    by (simp_all add: proper_def)
  from Cons.prems(1) obtain b where b: "stamp_gt x m = Inr b"
    and rest: "max_from (if b then x else m) xs = Inr r"
    by (auto split: sum.splits)
  from stamp_gt_proper [OF px pm b] have bv: "b = (value_of m < value_of x)" .
  have "proper ((if b then x else m) # xs)"
    using pm px pxs by (simp add: proper_def)
  from Cons.IH [OF rest this]
  have ih: "value_of (if b then x else m) \<le> value_of r"
    "\<forall>y\<in>set xs. value_of y \<le> value_of r"
    by simp_all
  from ih(1) bv have "value_of m \<le> value_of r" "value_of x \<le> value_of r"
    by (auto split: if_splits)
  with ih(2) show ?case by simp
qed

lemma min_from_same_zone: "same_zone (m # xs) \<Longrightarrow> \<exists>r. min_from m xs = Inr r"
proof (induction xs arbitrary: m)
  case Nil
  show ?case by simp
next
  case (Cons x xs)
  from same_zone_lt [OF Cons.prems] obtain b where b: "stamp_lt x m = Inr b" ..
  from same_zone_drop [OF Cons.prems] have "same_zone ((if b then x else m) # xs)"
    by simp
  from Cons.IH [OF this] b show ?case by simp
qed

lemma max_from_same_zone: "same_zone (m # xs) \<Longrightarrow> \<exists>r. max_from m xs = Inr r"
proof (induction xs arbitrary: m)
  case Nil
  show ?case by simp
next
  case (Cons x xs)
  from same_zone_gt [OF Cons.prems] obtain b where b: "stamp_gt x m = Inr b" ..
  from same_zone_drop [OF Cons.prems] have "same_zone ((if b then x else m) # xs)"
    by simp
  from Cons.IH [OF this] b show ?case by simp
qed

lemma min_from_error: "min_from m xs = Inl e \<Longrightarrow> e = TypeError"
proof (induction xs arbitrary: m)
  case Nil
  then show ?case by simp
next
  case (Cons x xs)
  show ?case
  proof (cases "stamp_lt x m")
    case (Inl e')
    with Cons.prems stamp_lt_error [OF Inl] show ?thesis by simp
  next
    case (Inr b)
    with Cons.prems have "min_from (if b then x else m) xs = Inl e" by simp
    then show ?thesis by (rule Cons.IH)
  qed
qed

lemma max_from_error: "max_from m xs = Inl e \<Longrightarrow> e = TypeError"
proof (induction xs arbitrary: m)
  case Nil
  then show ?case by simp
next
  case (Cons x xs)
  show ?case
  proof (cases "stamp_gt x m")
    case (Inl e')
    with Cons.prems stamp_gt_error [OF Inl] show ?thesis by simp
  next
    case (Inr b)
    with Cons.prems have "max_from (if b then x else m) xs = Inl e" by simp
    then show ?thesis by (rule Cons.IH)
  qed
qed

lemma time_range_empty: "time_range [] = Inl ValueError"
  by (simp add: time_range_def py_min_def)

lemma time_range_value_error: "time_range ts = Inl ValueError \<longleftrightarrow> ts = []"
proof (cases ts)
  case Nil
  then show ?thesis by (simp add: time_range_empty)
next
  case (Cons x xs)
  have "time_range (x # xs) \<noteq> Inl ValueError"
    unfolding time_range_def py_min_def py_max_def
    by (auto split: sum.splits dest: min_from_error max_from_error)
  with Cons show ?thesis by simp
qed

lemma time_range_same_zone:
  assumes "ts \<noteq> []" "same_zone ts"
  shows "\<exists>lo hi. time_range ts = Inr (lo, hi)"
proof -
  from assms(1) obtain x xs where ts: "ts = x # xs" by (cases ts) auto
  from min_from_same_zone [of x xs] max_from_same_zone [of x xs] assms(2) ts
  obtain lo hi where "min_from x xs = Inr lo" "max_from x xs = Inr hi" by auto
  then show ?thesis by (simp add: ts time_range_def py_min_def py_max_def)
qed

lemma time_range_error:
  assumes "time_range ts = Inl e"
  shows "(e = ValueError \<and> ts = []) \<or> (e = TypeError \<and> \<not> same_zone ts)"
proof (cases ts)
  case Nil
  with assms show ?thesis by (simp add: time_range_empty)
next
  case (Cons x xs)
  from assms Cons have "e = TypeError"
    unfolding time_range_def py_min_def py_max_def
    by (auto split: sum.splits dest: min_from_error max_from_error)
  moreover have "\<not> same_zone ts"
    using time_range_same_zone [of ts] assms Cons by auto
  ultimately show ?thesis by simp
qed

lemma time_range_bounds:
  assumes "time_range ts = Inr (lo, hi)"
  shows "lo \<in> set ts \<and> hi \<in> set ts
     \<and> (proper ts \<longrightarrow> (\<forall>t\<in>set ts. value_of lo \<le> value_of t \<and> value_of t \<le> value_of hi))"
proof (cases ts)
  case Nil
  with assms show ?thesis by (simp add: time_range_empty)
next
  case (Cons x xs)
  with assms have lo: "min_from x xs = Inr lo" and hi: "max_from x xs = Inr hi"
    by (auto simp: time_range_def py_min_def py_max_def split: sum.splits)
  from min_from_mem [OF lo] max_from_mem [OF hi]
  have mem: "lo \<in> set ts" "hi \<in> set ts" by (simp_all add: Cons)
  have "\<forall>t\<in>set ts. value_of lo \<le> value_of t \<and> value_of t \<le> value_of hi" if "proper ts"
    using min_from_le [OF lo] max_from_ge [OF hi] that by (simp add: Cons)
  with mem show ?thesis by blast
qed

section \<open>What the fetcher stores and pools\<close>

lemma all2_left: "list_all2 P xs ys \<Longrightarrow> x \<in> set xs \<Longrightarrow> \<exists>y\<in>set ys. P x y"
  by (induction rule: list_all2_induct) auto

lemma all2_right: "list_all2 P xs ys \<Longrightarrow> y \<in> set ys \<Longrightarrow> \<exists>x\<in>set xs. P x y"
  by (induction rule: list_all2_induct) auto

lemma collect_data_store: "data_store (fst (collect f es st)) = data_store st"
  by (induction es arbitrary: st) (auto split: sum.splits)

lemma collect_printed: "printed (fst (collect f es st)) = printed st"
  by (induction es arbitrary: st) (auto split: sum.splits)

lemma collect_ok:
  "collect f es st = (st', None) \<Longrightarrow>
     \<exists>ts. list_all2 (\<lambda>e t. stamp_of f e = Inr t) es ts
        \<and> st' = st\<lparr>timestamps := timestamps st @ ts\<rparr>"
proof (induction es arbitrary: st)
  case Nil
  then show ?case by simp
next
  case (Cons e es)
  from Cons.prems obtain t where t: "stamp_of f e = Inr t"
    and rest: "collect f es (st\<lparr>timestamps := timestamps st @ [t]\<rparr>) = (st', None)"
    by (auto split: sum.splits)
  from Cons.IH [OF rest] obtain ts where
    ts: "list_all2 (\<lambda>e t. stamp_of f e = Inr t) es ts"
    and st': "st' = st\<lparr>timestamps := timestamps st @ [t] @ ts\<rparr>"
    by auto
  have "list_all2 (\<lambda>e t. stamp_of f e = Inr t) (e # es) (t # ts)"
    using t ts by simp
  with st' show ?case by (intro exI [of _ "t # ts"]) simp
qed

lemma store_ok:
  assumes c: "collect f records (st\<lparr>data_store := (data_store st)(param \<mapsto> records)\<rparr>)
      = (st', None)"
  shows "\<exists>ts. list_all2 (\<lambda>e t. stamp_of f e = Inr t) records ts
     \<and> st' = st\<lparr>data_store := (data_store st)(param \<mapsto> records),
                timestamps := timestamps st @ ts\<rparr>"
  using collect_ok [OF c] by auto

lemma fetch_step_ok:
  assumes "fetch_step f http st (param, url) = (st', None)"
  shows "(st' = st\<lparr>printed := printed st @ [PrintUnexpected param]\<rparr>)
     \<or> (\<exists>records ts. list_all2 (\<lambda>e t. stamp_of f e = Inr t) records ts
          \<and> st' = st\<lparr>data_store := (data_store st)(param \<mapsto> records),
                timestamps := timestamps st @ ts\<rparr>)"
  using assms unfolding fetch_step_def
  by (auto split: option.splits dest!: store_ok)

lemma fetch_step_pooled:
  assumes "fetch_step f http st (param, url) = (st', None)" and "pooled f st"
  shows "pooled f st'"
  using fetch_step_ok [OF assms(1)]
proof (elim disjE exE conjE)
  assume "st' = st\<lparr>printed := printed st @ [PrintUnexpected param]\<rparr>"
  with assms(2) show ?thesis by (simp add: pooled_def)
next
  fix records ts
  assume l: "list_all2 (\<lambda>e t. stamp_of f e = Inr t) records ts"
    and st': "st' = st\<lparr>data_store := (data_store st)(param \<mapsto> records),
                timestamps := timestamps st @ ts\<rparr>"
  show ?thesis
    unfolding pooled_def
  proof (intro allI impI)
    fix p rs e
    assume p: "data_store st' p = Some rs" and e: "e \<in> set rs"
    show "\<exists>t. stamp_of f e = Inr t \<and> t \<in> set (timestamps st')"
    proof (cases "p = param")
      case True
      with p st' have "rs = records" by simp
      with e l obtain t where "t \<in> set ts" "stamp_of f e = Inr t"
        using all2_left [OF l, of e] by auto
      with st' show ?thesis by auto
    next
      case False
      with p st' have "data_store st p = Some rs" by simp
      with assms(2) e obtain t where "stamp_of f e = Inr t" "t \<in> set (timestamps st)"
        unfolding pooled_def by blast
      with st' show ?thesis by auto
    qed
  qed
qed

lemma fetch_step_sourced:
  assumes "fetch_step f http st (param, url) = (st', None)" and "sourced f st"
    and fresh: "data_store st param = None"
  shows "sourced f st'"
  using fetch_step_ok [OF assms(1)]
proof (elim disjE exE conjE)
  assume "st' = st\<lparr>printed := printed st @ [PrintUnexpected param]\<rparr>"
  with assms(2) show ?thesis by (simp add: sourced_def)
next
  fix records ts
  assume l: "list_all2 (\<lambda>e t. stamp_of f e = Inr t) records ts"
    and st': "st' = st\<lparr>data_store := (data_store st)(param \<mapsto> records),
                timestamps := timestamps st @ ts\<rparr>"
  show ?thesis
    unfolding sourced_def
  proof
    fix t
    assume "t \<in> set (timestamps st')"
    with st' consider "t \<in> set (timestamps st)" | "t \<in> set ts" by auto
    then show "\<exists>p rs e. data_store st' p = Some rs \<and> e \<in> set rs \<and> stamp_of f e = Inr t"
    proof cases
      case 1
      with assms(2) obtain p rs e where
        p: "data_store st p = Some rs" "e \<in> set rs" "stamp_of f e = Inr t"
        unfolding sourced_def by blast
      from p(1) fresh have "p \<noteq> param" by auto
      with p st' show ?thesis by (intro exI [of _ p] exI [of _ rs] exI [of _ e]) simp
    next
      case 2
      from all2_right [OF l 2] obtain e where "e \<in> set records" "stamp_of f e = Inr t"
        by auto
      with st' show ?thesis
        by (intro exI [of _ param] exI [of _ records] exI [of _ e]) simp
    qed
  qed
qed

lemma fetch_step_other:
  "q \<noteq> param \<Longrightarrow> data_store (fst (fetch_step f http st (param, url))) q = data_store st q"
  unfolding fetch_step_def
  by (auto split: option.splits simp: collect_data_store)

lemma fetch_loop_other:
  "q \<notin> fst ` set items \<Longrightarrow> data_store (fst (fetch_loop f http st items)) q = data_store st q"
proof (induction items arbitrary: st)
  case Nil
  show ?case by simp
next
  case (Cons pu rest)
  obtain param url where pu: "pu = (param, url)" by (cases pu)
  with Cons.prems have ne: "q \<noteq> param" and nr: "q \<notin> fst ` set rest" by auto
  obtain st1 r where s: "fetch_step f http st (param, url) = (st1, r)"
    by (cases "fetch_step f http st (param, url)")
  from fetch_step_other [OF ne, of f http st url] s
  have st1: "data_store st1 q = data_store st q" by simp
  show ?case
  proof (cases r)
    case None
    with s pu Cons.IH [OF nr, of st1] st1 show ?thesis by simp
  next
    case (Some e)
    with s pu st1 show ?thesis by simp
  qed
qed

lemma fetch_loop_invariants:
  assumes "fetch_loop f http st items = (st', None)"
    and "pooled f st" and "sourced f st"
    and "distinct (map fst items)"
    and "\<forall>p\<in>fst ` set items. data_store st p = None"
  shows "pooled f st' \<and> sourced f st'"
  using assms
proof (induction items arbitrary: st)
  case Nil
  then show ?case by simp
next
  case (Cons pu rest)
  obtain param url where pu: "pu = (param, url)" by (cases pu)
  from Cons.prems(1) obtain st1 where
    s: "fetch_step f http st (param, url) = (st1, None)"
    and r: "fetch_loop f http st1 rest = (st', None)"
    unfolding pu by (auto split: prod.splits option.splits)
  from Cons.prems(5) pu have fresh: "data_store st param = None" by simp
  have p1: "pooled f st1" using s Cons.prems(2) by (rule fetch_step_pooled)
  have s1: "sourced f st1" using s Cons.prems(3) fresh by (rule fetch_step_sourced)
  have d: "distinct (map fst rest)" using Cons.prems(4) by simp
  have "\<forall>p\<in>fst ` set rest. data_store st1 p = None"
  proof
    fix p
    assume p: "p \<in> fst ` set rest"
    with Cons.prems(4) pu have "p \<noteq> param" by auto
    from fetch_step_other [OF this, of f http st url] s
    have "data_store st1 p = data_store st p" by simp
    with Cons.prems(5) p show "data_store st1 p = None" by auto
  qed
  from Cons.IH [OF r p1 s1 d this] show ?case .
qed

lemma distinct_urls: "distinct (map fst urls)"
  by (simp add: urls_def)

lemma fetch_all_invariants:
  assumes "fetch_all f http = (st, None)"
  shows "pooled f st" and "sourced f st"
proof -
  have "pooled f start" "sourced f start"
    by (simp_all add: pooled_def sourced_def start_def)
  with fetch_loop_invariants [of f http start urls st] assms distinct_urls
  show "pooled f st" and "sourced f st"
    by (simp_all add: fetch_all_def start_def)
qed

lemma fetch_step_skip:
  assumes "http url = Some data" "data ''data'' = None" "data ''predictions'' = None"
  shows "fetch_step f http st (param, url)
      = (st\<lparr>printed := printed st @ [PrintUnexpected param]\<rparr>, None)"
  using assms by (simp add: fetch_step_def)

lemma fetch_loop_skipped_absent:
  assumes "http url = Some data" "data ''data'' = None" "data ''predictions'' = None"
    and "(param, url) \<in> set items" and "distinct (map fst items)"
    and "data_store st param = None"
  shows "data_store (fst (fetch_loop f http st items)) param = None"
  using assms(4-6)
proof (induction items arbitrary: st)
  case Nil
  then show ?case by simp
next
  case (Cons pu rest)
  show ?case
  proof (cases "pu = (param, url)")
    case True
    with Cons.prems(2) have "param \<notin> fst ` set rest" by simp
    from fetch_loop_other [OF this] Cons.prems(3) True
    show ?thesis
      using fetch_step_skip [where http = http and url = url and data = data] assms(1-3)
      by simp
  next
    case False
    obtain p u where pu: "pu = (p, u)" by (cases pu)
    from False Cons.prems(1) have mem: "(param, url) \<in> set rest" by simp
    then have "param \<in> fst ` set rest" by force
    with Cons.prems(2) pu have ne: "param \<noteq> p" by auto
    obtain st1 r where s: "fetch_step f http st (p, u) = (st1, r)"
      by (cases "fetch_step f http st (p, u)")
    from fetch_step_other [OF ne, of f http st u] s Cons.prems(3)
    have st1: "data_store st1 param = None" by simp
    show ?thesis
    proof (cases r)
      case None
      from Cons.prems(2) have "distinct (map fst rest)" by simp
      from Cons.IH [OF mem this st1] s None pu show ?thesis by simp
    next
      case (Some e)
      with s pu st1 show ?thesis by simp
    qed
  qed
qed

lemmas sample_eval = http_ok_def http_no_wind_def http_no_pressure_def sample_response_def
  error_response_def sample_records_def request_url_def api_host_def stamp0 stamp1 float_2_5

lemma fetch_ok: "snd (fetch_all noaa_datetime http_ok) = None"
  by (simp add: run_eval sample_eval)

section \<open>The fetcher skips a response of unexpected shape\<close>

text \<open>
  C2.  Let the body fetched for a parameter be a JSON object \<open>data\<close>.  If it has no
  member \<^verbatim>\<open>data\<close> and no member \<^verbatim>\<open>predictions\<close>, the turn of the fetch loop for that
  parameter prints the unexpected-structure message and changes nothing else: the
  Dataset and the pool of timestamps stay as they were and no exception is raised, so
  the loop goes on with the remaining parameters exactly as from the unchanged state;
  and after the whole fetch the Dataset has no entry for the parameter.  If the member
  \<^verbatim>\<open>data\<close> is there, its array is stored as the parameter's record list; if it is not
  and \<^verbatim>\<open>predictions\<close> is, that array is stored.
\<close>

theorem unexpected_shape_is_skipped:
  assumes "http url = Some data"
  shows "(data ''data'' = None \<and> data ''predictions'' = None \<longrightarrow>
            fetch_step f http st (param, url)
              = (st\<lparr>printed := printed st @ [PrintUnexpected param]\<rparr>, None)
          \<and> fetch_loop f http st ((param, url) # rest)
              = fetch_loop f http (st\<lparr>printed := printed st @ [PrintUnexpected param]\<rparr>) rest
          \<and> ((param, url) \<in> set urls \<longrightarrow>
                data_store (fst (fetch_all f http)) param = None))
     \<and> (\<forall>records. data ''data'' = Some records \<longrightarrow>
            data_store (fst (fetch_step f http st (param, url))) param = Some records)
     \<and> (\<forall>records. data ''data'' = None \<and> data ''predictions'' = Some records \<longrightarrow>
            data_store (fst (fetch_step f http st (param, url))) param = Some records)"
proof (intro conjI impI allI)
  assume n: "data ''data'' = None \<and> data ''predictions'' = None"
  then show s: "fetch_step f http st (param, url)
              = (st\<lparr>printed := printed st @ [PrintUnexpected param]\<rparr>, None)"
    using assms by (simp add: fetch_step_skip)
  then show "fetch_loop f http st ((param, url) # rest)
              = fetch_loop f http (st\<lparr>printed := printed st @ [PrintUnexpected param]\<rparr>) rest"
    by simp
  assume "(param, url) \<in> set urls"
  with n assms show "data_store (fst (fetch_all f http)) param = None"
    unfolding fetch_all_def
    by (intro fetch_loop_skipped_absent [of http url data]) (simp_all add: distinct_urls start_def)
next
  fix records
  assume "data ''data'' = Some records"
  with assms show "data_store (fst (fetch_step f http st (param, url))) param = Some records"
    by (simp add: fetch_step_def collect_data_store)
next
  fix records
  assume "data ''data'' = None \<and> data ''predictions'' = Some records"
  with assms show "data_store (fst (fetch_step f http st (param, url))) param = Some records"
    by (simp add: fetch_step_def collect_data_store)
qed

theorem unexpected_shape_is_skipped_witness:
  "http_no_wind (request_url ''wind'') = Some error_response
   \<and> error_response ''data'' = None \<and> error_response ''predictions'' = None
   \<and> (''wind'', request_url ''wind'') \<in> set urls
   \<and> data_store (fst (fetch_all noaa_datetime http_no_wind)) ''wind'' = None
   \<and> fetch_step noaa_datetime http_no_wind start (''wind'', request_url ''wind'')
       = (start\<lparr>printed := [PrintUnexpected ''wind'']\<rparr>, None)
   \<and> sample_response ''data'' = Some sample_records
   \<and> data_store (fst (fetch_step noaa_datetime http_ok start (''wind'', request_url ''wind''))) ''wind''
       = Some sample_records"
proof -
  have h: "http_no_wind (request_url ''wind'') = Some error_response"
    by (simp add: http_no_wind_def)
  have e: "error_response ''data'' = None \<and> error_response ''predictions'' = None"
    by (simp add: error_response_def)
  have u: "(''wind'', request_url ''wind'') \<in> set urls"
    by (simp add: urls_def request_url_def api_host_def)
  have k: "http_ok (request_url ''wind'') = Some sample_response"
    by (simp add: http_ok_def)
  have d: "sample_response ''data'' = Some sample_records"
    by (simp add: sample_response_def)
  from unexpected_shape_is_skipped [where http = http_no_wind and url = "request_url ''wind''"
      and data = error_response and f = noaa_datetime and st = start
      and param = "''wind''" and rest = "[]"]
    unexpected_shape_is_skipped [where http = http_ok and url = "request_url ''wind''"
      and data = sample_response and f = noaa_datetime and st = start
      and param = "''wind''" and rest = "[]"]
    h e u k d
  show ?thesis by (simp add: start_def)
qed

lemmas sample_eval2 = http_blank_stamp_def http_mixed_zone_def stamp1z stamp_blank

section \<open>The aggregated range bounds every proper observation\<close>

text \<open>
  C3, as amended.  Let the fetch complete with a pool of timestamps that holds no
  \<^verbatim>\<open>NaT\<close>.  Whenever the aggregator returns a range \<open>(min_time, max_time)\<close> for it, the
  two components occur in the pool, every timestamp of the pool lies between them, and
  so does the timestamp of every record of every series in the Dataset; and it does
  return a range when the pool is not empty and its timestamps are all tz-naive or all
  tz-aware.
\<close>

theorem aggregated_range_bounds:
  assumes "fetch_all f http = (st, None)" and "proper (timestamps st)"
  shows "(\<forall>min_time max_time.
        time_range (timestamps st) = Inr (min_time, max_time) \<longrightarrow>
          min_time \<in> set (timestamps st) \<and> max_time \<in> set (timestamps st)
        \<and> (\<forall>t\<in>set (timestamps st).
              value_of min_time \<le> value_of t \<and> value_of t \<le> value_of max_time)
        \<and> (\<forall>param records entry.
              data_store st param = Some records \<longrightarrow> entry \<in> set records \<longrightarrow>
                (\<exists>t. stamp_of f entry = Inr t
                   \<and> value_of min_time \<le> value_of t \<and> value_of t \<le> value_of max_time)))
    \<and> (timestamps st \<noteq> [] \<and> same_zone (timestamps st) \<longrightarrow>
          (\<exists>min_time max_time. time_range (timestamps st) = Inr (min_time, max_time)))"
proof (intro conjI allI impI)
  fix min_time max_time
  assume tr: "time_range (timestamps st) = Inr (min_time, max_time)"
  note b = time_range_bounds [OF tr]
  from b show "min_time \<in> set (timestamps st)" by simp
  from b show "max_time \<in> set (timestamps st)" by simp
  from b assms(2) show all: "\<forall>t\<in>set (timestamps st).
      value_of min_time \<le> value_of t \<and> value_of t \<le> value_of max_time"
    by simp
  fix param records entry
  assume "data_store st param = Some records" "entry \<in> set records"
  moreover have "pooled f st" using assms(1) by (rule fetch_all_invariants)
  ultimately obtain t where "stamp_of f entry = Inr t" "t \<in> set (timestamps st)"
    unfolding pooled_def by blast
  with all show "\<exists>t. stamp_of f entry = Inr t
      \<and> value_of min_time \<le> value_of t \<and> value_of t \<le> value_of max_time"
    by blast
next
  assume "timestamps st \<noteq> [] \<and> same_zone (timestamps st)"
  then show "\<exists>min_time max_time. time_range (timestamps st) = Inr (min_time, max_time)"
    by (simp add: time_range_same_zone)
qed

theorem aggregated_range_bounds_witness:
  "fetch_all noaa_datetime http_ok = (fst (fetch_all noaa_datetime http_ok), None)
   \<and> proper (timestamps (fst (fetch_all noaa_datetime http_ok)))
   \<and> time_range (timestamps (fst (fetch_all noaa_datetime http_ok)))
       = Inr (Stamp False 1728345600000000000, Stamp False 1728345960000000000)
   \<and> data_store (fst (fetch_all noaa_datetime http_ok)) ''wind'' = Some sample_records
   \<and> (\<exists>t. stamp_of noaa_datetime (sample_records ! 1) = Inr t
        \<and> value_of (Stamp False 1728345600000000000) \<le> value_of t
        \<and> value_of t \<le> value_of (Stamp False 1728345960000000000))"
proof -
  have h: "fetch_all noaa_datetime http_ok = (fst (fetch_all noaa_datetime http_ok), None)"
    using fetch_ok by (simp add: prod_eq_iff)
  have p: "proper (timestamps (fst (fetch_all noaa_datetime http_ok)))"
    by (simp add: run_eval sample_eval proper_def)
  have r: "time_range (timestamps (fst (fetch_all noaa_datetime http_ok)))
       = Inr (Stamp False 1728345600000000000, Stamp False 1728345960000000000)"
    by (simp add: run_eval sample_eval)
  have w: "data_store (fst (fetch_all noaa_datetime http_ok)) ''wind'' = Some sample_records"
    by (simp add: run_eval sample_eval)
  have e: "sample_records ! 1 \<in> set sample_records"
    by (simp add: sample_records_def)
  from aggregated_range_bounds [OF h p] r w e
  have "\<exists>t. stamp_of noaa_datetime (sample_records ! 1) = Inr t
        \<and> value_of (Stamp False 1728345600000000000) \<le> value_of t
        \<and> value_of t \<le> value_of (Stamp False 1728345960000000000)"
    by blast
  with h p r w show ?thesis by blast
qed

text \<open>
  C3 as stated fails where a record has an empty timestamp: pandas reads it as
  \<^verbatim>\<open>NaT\<close>, every comparison with \<^verbatim>\<open>NaT\<close> is False, so \<^verbatim>\<open>min\<close> and \<^verbatim>\<open>max\<close> pass over
  it.  With the records at \<^verbatim>\<open>2024-10-08 00:00\<close> and at the empty stamp the pool is not
  empty, the range is that instant twice, and the \<^verbatim>\<open>NaT\<close> of the second record of the
  wind series lies below it.
\<close>

theorem nat_outside_range_counterexample:
  "snd (fetch_all noaa_datetime http_blank_stamp) = None
   \<and> time_range (timestamps (fst (fetch_all noaa_datetime http_blank_stamp)))
       = Inr (Stamp False 1728345600000000000, Stamp False 1728345600000000000)
   \<and> NaT \<in> set (timestamps (fst (fetch_all noaa_datetime http_blank_stamp)))
   \<and> map (stamp_of noaa_datetime)
         (the (data_store (fst (fetch_all noaa_datetime http_blank_stamp)) ''wind''))
       = [Inr (Stamp False 1728345600000000000), Inr NaT]
   \<and> value_of NaT < value_of (Stamp False 1728345600000000000)"
  by (simp add: run_eval sample_eval sample_eval2)

section \<open>When the aggregator fails\<close>

text \<open>
  C6, as amended.  After a completed fetch, the aggregator fails with the ValueError
  that \<^verbatim>\<open>min\<close> raises on an empty list (the spec's EmptyDatasetError) if and only if
  no series of the Dataset has a record.  Its only other failure is the TypeError of
  comparing a tz-naive with a tz-aware timestamp, which needs a pool that holds both.
  When some series has a record and the timestamps are all tz-naive or all tz-aware,
  it returns a pair without failing: both components are timestamps of the pool, and
  when the pool holds no \<^verbatim>\<open>NaT\<close> they are its least and its greatest instant.
\<close>

theorem aggregator_fails_iff_no_observations:
  assumes "fetch_all f http = (st, None)"
  shows "(time_range (timestamps st) = Inl ValueError
            \<longleftrightarrow> (\<forall>param records. data_store st param = Some records \<longrightarrow> records = []))
    \<and> (\<forall>e. time_range (timestamps st) = Inl e \<longrightarrow>
            e = ValueError \<or> (e = TypeError \<and> \<not> same_zone (timestamps st)))
    \<and> ((\<exists>param records. data_store st param = Some records \<and> records \<noteq> [])
          \<and> same_zone (timestamps st) \<longrightarrow>
            (\<exists>min_time max_time.
                time_range (timestamps st) = Inr (min_time, max_time)
              \<and> min_time \<in> set (timestamps st) \<and> max_time \<in> set (timestamps st)
              \<and> (proper (timestamps st) \<longrightarrow>
                   (\<forall>t\<in>set (timestamps st).
                      value_of min_time \<le> value_of t \<and> value_of t \<le> value_of max_time))))"
proof -
  have p: "pooled f st" and s: "sourced f st"
    using assms by (rule fetch_all_invariants)+
  have e: "timestamps st = [] \<longleftrightarrow>
      (\<forall>param records. data_store st param = Some records \<longrightarrow> records = [])"
  proof
    assume "timestamps st = []"
    with p show "\<forall>param records. data_store st param = Some records \<longrightarrow> records = []"
      unfolding pooled_def by (metis empty_iff empty_set last_in_set)
  next
    assume a: "\<forall>param records. data_store st param = Some records \<longrightarrow> records = []"
    show "timestamps st = []"
    proof (rule ccontr)
      assume "timestamps st \<noteq> []"
      then obtain t where "t \<in> set (timestamps st)" by (cases "timestamps st") auto
      with s obtain p' rs e' where "data_store st p' = Some rs" "e' \<in> set rs"
        unfolding sourced_def by blast
      with a show False by fastforce
    qed
  qed
  have c1: "time_range (timestamps st) = Inl ValueError
            \<longleftrightarrow> (\<forall>param records. data_store st param = Some records \<longrightarrow> records = [])"
    using e by (simp add: time_range_value_error)
  have c2: "\<forall>e. time_range (timestamps st) = Inl e \<longrightarrow>
            e = ValueError \<or> (e = TypeError \<and> \<not> same_zone (timestamps st))"
    using time_range_error [of "timestamps st"] by blast
  have c3: "\<exists>min_time max_time.
                time_range (timestamps st) = Inr (min_time, max_time)
              \<and> min_time \<in> set (timestamps st) \<and> max_time \<in> set (timestamps st)
              \<and> (proper (timestamps st) \<longrightarrow>
                   (\<forall>t\<in>set (timestamps st).
                      value_of min_time \<le> value_of t \<and> value_of t \<le> value_of max_time))"
    if "\<exists>param records. data_store st param = Some records \<and> records \<noteq> []"
      and z: "same_zone (timestamps st)"
  proof -
    from that(1) e have "timestamps st \<noteq> []" by blast
    from time_range_same_zone [OF this z] obtain lo hi where
      tr: "time_range (timestamps st) = Inr (lo, hi)" by blast
    from time_range_bounds [OF tr] tr show ?thesis by blast
  qed
  from c1 c2 c3 show ?thesis by blast
qed

theorem aggregator_fails_iff_no_observations_witness:
  "fetch_all noaa_datetime http_ok = (fst (fetch_all noaa_datetime http_ok), None)
   \<and> data_store (fst (fetch_all noaa_datetime http_ok)) ''wind'' = Some sample_records
   \<and> sample_records \<noteq> []
   \<and> same_zone (timestamps (fst (fetch_all noaa_datetime http_ok)))
   \<and> (\<exists>min_time max_time.
        time_range (timestamps (fst (fetch_all noaa_datetime http_ok))) = Inr (min_time, max_time)
        \<and> min_time \<in> set (timestamps (fst (fetch_all noaa_datetime http_ok)))
        \<and> max_time \<in> set (timestamps (fst (fetch_all noaa_datetime http_ok))))"
proof -
  have h: "fetch_all noaa_datetime http_ok = (fst (fetch_all noaa_datetime http_ok), None)"
    using fetch_ok by (simp add: prod_eq_iff)
  have w: "data_store (fst (fetch_all noaa_datetime http_ok)) ''wind'' = Some sample_records"
    by (simp add: run_eval sample_eval)
  have n: "sample_records \<noteq> []" by (simp add: sample_records_def)
  have z: "same_zone (timestamps (fst (fetch_all noaa_datetime http_ok)))"
    by (simp add: run_eval sample_eval same_zone_def)
  from aggregator_fails_iff_no_observations [OF h] w n z
  have "\<exists>min_time max_time.
        time_range (timestamps (fst (fetch_all noaa_datetime http_ok))) = Inr (min_time, max_time)
        \<and> min_time \<in> set (timestamps (fst (fetch_all noaa_datetime http_ok)))
        \<and> max_time \<in> set (timestamps (fst (fetch_all noaa_datetime http_ok)))"
    by blast
  with h w n z show ?thesis by blast
qed

text \<open>
  C6 as stated fails: observations exist and the aggregator fails all the same, and
  not with the error of the empty pool.  Where the first record of each series has a
  tz-naive timestamp and the second a tz-aware one, the fetch completes, the pool
  holds twelve timestamps, and \<^verbatim>\<open>min\<close> raises TypeError, which ends the run.
\<close>

theorem mixed_zone_counterexample:
  "snd (fetch_all noaa_datetime http_mixed_zone) = None
   \<and> length (timestamps (fst (fetch_all noaa_datetime http_mixed_zone))) = 12
   \<and> time_range (timestamps (fst (fetch_all noaa_datetime http_mixed_zone))) = Inl TypeError
   \<and> raised (run noaa_datetime http_mixed_zone) = Some TypeError
   \<and> time_range [Stamp False 1728345600000000000, Stamp True 1728345960000000000]
       = Inl TypeError"
  by (simp add: run_eval sample_eval sample_eval2)

section \<open>Replaying well-formed records\<close>

lemma aligned_replayable: "aligned f ds n \<Longrightarrow> replayable f ds n"
  unfolding aligned_def replayable_def list_all_iff
  by (auto split: option.splits)

lemma replayableD:
  assumes "replayable f ds n" "param \<in> set series_list" "i < n"
  shows "\<exists>records. ds param = Some records \<and> i < length records
     \<and> well_formed f param (records ! i)"
proof -
  from assms(1,2) obtain records where r: "ds param = Some records" "n \<le> length records"
      "list_all (well_formed f param) (take n records)"
    unfolding replayable_def list_all_iff by (auto split: option.splits)
  from r(2) assms(3) have "records ! i \<in> set (take n records)"
    by (metis in_set_conv_nth length_take min.absorb2 nth_take)
  with r show ?thesis using assms(3) by (auto simp: list_all_iff)
qed

lemma value_str_of_series:
  "param \<in> set series_list \<Longrightarrow> value_str_of param entry = py_getitem entry (value_field param)"
  by (auto simp: series_list_def urls_def value_str_of_def value_field_def)

lemma play_entry_well_formed:
  assumes "ds param = Some records" "i < length records"
    "well_formed f param (records ! i)" "param \<in> set series_list"
  shows "\<exists>t v. stamp_of f (records ! i) = Inr t \<and> (records ! i) (value_field param) = Some v
     \<and> (v = [] \<longrightarrow> play_entry f ds i param = Inr (PrintMissing param t))
     \<and> (v \<noteq> [] \<longrightarrow> (\<exists>y. py_float v = Inr y
            \<and> play_entry f ds i param = Inr (AddPoint param (ms_of t) y)))"
proof -
  from assms(3) obtain s t v where s: "(records ! i) ''t'' = Some s" and t: "f s = Some t"
    and v: "(records ! i) (value_field param) = Some v"
    and y: "v = [] \<or> \<not> isl (py_float v)"
    unfolding well_formed_def by (auto split: option.splits)
  have st: "stamp_of f (records ! i) = Inr t"
    using s t by (simp add: stamp_of_def py_getitem_def)
  have vs: "value_str_of param (records ! i) = Inr v"
    using v by (simp add: value_str_of_series [OF assms(4)] py_getitem_def)
  show ?thesis
  proof (cases "v = []")
    case True
    with assms(1,2) st vs v show ?thesis
      by (simp add: play_entry_def py_getitem_def py_index_def)
  next
    case False
    with y obtain yv where "py_float v = Inr yv" by (cases "py_float v") auto
    with False assms(1,2) st vs v show ?thesis
      by (simp add: play_entry_def py_getitem_def py_index_def)
  qed
qed

lemma play_params_ok:
  "\<forall>param\<in>set params. \<exists>ev. play_entry f ds i param = Inr ev \<Longrightarrow>
     play_params f ds i params = (map (shown f ds i) params, None)"
  by (induction params) (auto simp: shown_def)

lemma play_from_ok:
  "\<forall>i\<in>set is. \<forall>param\<in>set series_list. \<exists>ev. play_entry f ds i param = Inr ev \<Longrightarrow>
     play_from f ds is = (concat (map (\<lambda>i. iteration f ds i @ [Sleep 30]) is), None)"
proof (induction "is")
  case Nil
  show ?case by simp
next
  case (Cons i "is")
  from Cons.prems have "play_params f ds i series_list = (map (shown f ds i) series_list, None)"
    by (intro play_params_ok) simp
  moreover from Cons have "play_from f ds is = (concat (map (\<lambda>i. iteration f ds i @ [Sleep 30]) is), None)"
    by simp
  ultimately show ?case by (simp add: iteration_def)
qed

lemma replayable_entry:
  assumes "replayable f ds n" "param \<in> set series_list" "i < n"
  shows "\<exists>ev. play_entry f ds i param = Inr ev"
proof -
  from replayableD [OF assms] obtain records where
    "ds param = Some records" "i < length records" "well_formed f param (records ! i)"
    by blast
  then show ?thesis
    using play_entry_well_formed [of ds param records i f] assms(2) by metis
qed

lemma replayable_iteration:
  assumes "replayable f ds n" "i < n"
  shows "iteration f ds i = map (shown f ds i) series_list"
  using assms unfolding iteration_def
  by (subst play_params_ok) (auto intro: replayable_entry)

lemma replayable_playback:
  assumes "replayable f ds n" "ds ''wind'' = Some wind" "length wind = n"
  shows "playback f ds = (concat (map (\<lambda>i. iteration f ds i @ [Sleep 30]) (py_range n)), None)"
  using assms unfolding playback_def py_getitem_def
  by (simp add: py_range_def play_from_ok replayable_entry)

lemma shown_replayable:
  assumes "replayable f ds n" "param \<in> set series_list" "i < n"
  shows "is_add (shown f ds i param) = (\<not> missing ds i param)"
    and "shown f ds i param \<noteq> Sleep k"
proof -
  from replayableD [OF assms] obtain records where
    r: "ds param = Some records" "i < length records" "well_formed f param (records ! i)"
    by blast
  from play_entry_well_formed [of ds param records i f] r assms(2) obtain t v where
    v: "(records ! i) (value_field param) = Some v"
    and m: "v = [] \<longrightarrow> play_entry f ds i param = Inr (PrintMissing param t)"
    and a: "v \<noteq> [] \<longrightarrow> (\<exists>y. py_float v = Inr y
            \<and> play_entry f ds i param = Inr (AddPoint param (ms_of t) y))"
    by blast
  show "is_add (shown f ds i param) = (\<not> missing ds i param)"
    using r(1) v m a by (cases "v = []") (auto simp: shown_def missing_def)
  show "shown f ds i param \<noteq> Sleep k"
    using r(1) v m a by (cases "v = []") (auto simp: shown_def)
qed

lemma length_series_list: "length series_list = 6"
  by (simp add: series_list_def urls_def)

lemma filter_map_cong_set:
  "(\<And>x. x \<in> set xs \<Longrightarrow> P (g x) = Q x) \<Longrightarrow> length (filter P (map g xs)) = length (filter Q xs)"
  by (induction xs) auto

lemmas store_eval = sample_store_def series_list_def urls_def sample_records_def
  aligned_def replayable_def well_formed_def value_field_def stamp_of_def value_str_of_def
  py_getitem_def stamp0 stamp1 float_2_5

lemma sample_aligned: "aligned noaa_datetime sample_store 2"
  by (simp add: store_eval)

section \<open>The playback loop runs once per wind record\<close>

text \<open>
  C1, as amended.  Let each of the six parameters have exactly \<open>n\<close> records in the
  Dataset, each of them well formed: its timestamp can be read and its value field
  is there, empty or accepted by \<^verbatim>\<open>float\<close>.  Then \<open>n\<close> is the length of the wind series
  and the playback completes without an exception after exactly \<open>n\<close> turns of its outer
  loop: what it prints and draws is, for each position \<open>0, \<dots>, n - 1\<close> in order, the
  events of that position followed by one pause of 30 ms, the last position included,
  so that \<open>n\<close> pauses are made in all.  The events of a position are six, none of them
  a pause, at most six of them points; the points are as many as the parameters whose
  value field at that position is not the empty string.
\<close>

theorem playback_runs_once_per_wind_record:
  assumes "aligned f ds n"
  shows "(\<exists>wind. ds ''wind'' = Some wind \<and> length wind = n)
     \<and> playback f ds
         = (concat (map (\<lambda>i. iteration f ds i @ [Sleep 30]) (py_range n)), None)
     \<and> length (filter (\<lambda>ev. ev = Sleep 30) (fst (playback f ds))) = n
     \<and> (\<forall>i<n. length (iteration f ds i) = 6
           \<and> Sleep 30 \<notin> set (iteration f ds i)
           \<and> length (filter is_add (iteration f ds i)) \<le> 6
           \<and> length (filter is_add (iteration f ds i))
               = length (filter (\<lambda>param. \<not> missing ds i param) series_list))"
proof -
  have rp: "replayable f ds n" using assms by (rule aligned_replayable)
  have "''wind'' \<in> set series_list" by (simp add: series_list_def urls_def)
  with assms obtain wind where w: "ds ''wind'' = Some wind" "length wind = n"
    unfolding aligned_def list_all_iff by (auto split: option.splits)
  have pb: "playback f ds
      = (concat (map (\<lambda>i. iteration f ds i @ [Sleep 30]) (py_range n)), None)"
    using rp w by (rule replayable_playback)
  have it: "length (iteration f ds i) = 6
           \<and> Sleep 30 \<notin> set (iteration f ds i)
           \<and> length (filter is_add (iteration f ds i)) \<le> 6
           \<and> length (filter is_add (iteration f ds i))
               = length (filter (\<lambda>param. \<not> missing ds i param) series_list)" if "i < n" for i
  proof -
    have eq: "iteration f ds i = map (shown f ds i) series_list"
      using rp that by (rule replayable_iteration)
    have cnt: "length (filter is_add (iteration f ds i))
               = length (filter (\<lambda>param. \<not> missing ds i param) series_list)"
      unfolding eq using shown_replayable(1) [OF rp _ that]
      by (rule filter_map_cong_set)
    have le: "length (filter (\<lambda>param. \<not> missing ds i param) series_list) \<le> 6"
      using length_filter_le [of _ series_list] by (simp add: length_series_list)
    have ns: "Sleep 30 \<notin> set (iteration f ds i)"
    proof
      assume "Sleep 30 \<in> set (iteration f ds i)"
      then obtain param where "param \<in> set series_list" "shown f ds i param = Sleep 30"
        unfolding eq by auto
      with shown_replayable(2) [OF rp _ that, of param 30] show False by simp
    qed
    from le ns cnt show ?thesis by (simp add: eq length_series_list)
  qed
  have sl: "length (filter (\<lambda>ev. ev = Sleep 30)
        (concat (map (\<lambda>i. iteration f ds i @ [Sleep 30]) is))) = length is"
    if "set is \<subseteq> {..<n}" for "is"
    using that
  proof (induction "is")
    case Nil
    show ?case by simp
  next
    case (Cons i "is")
    then have "i < n" by simp
    with it have "Sleep 30 \<notin> set (iteration f ds i)" by blast
    then have "filter (\<lambda>ev. ev = Sleep 30) (iteration f ds i) = []"
      by (auto simp: filter_empty_conv)
    with Cons show ?case by simp
  qed
  have "length (filter (\<lambda>ev. ev = Sleep 30) (fst (playback f ds))) = n"
    unfolding pb fst_conv py_range_def by (subst sl) auto
  with w pb it show ?thesis by blast
qed

theorem playback_runs_once_per_wind_record_witness:
  "aligned noaa_datetime sample_store 2
   \<and> (\<exists>wind. sample_store ''wind'' = Some wind \<and> length wind = 2)
   \<and> snd (playback noaa_datetime sample_store) = None
   \<and> length (filter (\<lambda>ev. ev = Sleep 30) (fst (playback noaa_datetime sample_store))) = 2
   \<and> length (filter is_add (iteration noaa_datetime sample_store 0)) \<le> 6
   \<and> length (filter is_add (iteration noaa_datetime sample_store 1))
       = length (filter (\<lambda>param. \<not> missing sample_store 1 param) series_list)"
proof -
  have a: "aligned noaa_datetime sample_store 2" by (rule sample_aligned)
  note c = playback_runs_once_per_wind_record [OF a]
  from c have w: "\<exists>wind. sample_store ''wind'' = Some wind \<and> length wind = 2"
    by (rule conjunct1)
  from c have p: "playback noaa_datetime sample_store
      = (concat (map (\<lambda>i. iteration noaa_datetime sample_store i @ [Sleep 30])
           (py_range 2)), None)"
    by blast
  from c have s: "length (filter (\<lambda>ev. ev = Sleep 30)
      (fst (playback noaa_datetime sample_store))) = 2"
    by blast
  from c have i: "\<forall>i<2. length (iteration noaa_datetime sample_store i) = 6
           \<and> Sleep 30 \<notin> set (iteration noaa_datetime sample_store i)
           \<and> length (filter is_add (iteration noaa_datetime sample_store i)) \<le> 6
           \<and> length (filter is_add (iteration noaa_datetime sample_store i))
               = length (filter (\<lambda>param. \<not> missing sample_store i param) series_list)"
    by blast
  have n: "snd (playback noaa_datetime sample_store) = None"
    by (subst p) simp
  from i [rule_format, of 0]
  have i0: "length (filter is_add (iteration noaa_datetime sample_store 0)) \<le> 6"
    by simp
  from i [rule_format, of 1]
  have i1: "length (filter is_add (iteration noaa_datetime sample_store 1))
       = length (filter (\<lambda>param. \<not> missing sample_store 1 param) series_list)"
    by simp
  from a w n s i0 i1 show ?thesis by blast
qed

text \<open>
  C1 as stated fails: it asks nothing of what the records hold.  With six series of one
  record each whose value is \<^verbatim>\<open>abc\<close>, the conversion of the first value raises
  ValueError: the playback ends within its first turn, before any point and any pause.
\<close>

theorem unreadable_value_counterexample:
  "garbled_store ''wind'' = Some garbled_records
   \<and> garbled_store ''air_pressure'' = Some garbled_records
   \<and> garbled_store ''water_level'' = Some garbled_records
   \<and> garbled_store ''tide_predictions'' = Some garbled_records
   \<and> garbled_store ''water_temperature'' = Some garbled_records
   \<and> garbled_store ''air_temperature'' = Some garbled_records
   \<and> length garbled_records = 1
   \<and> playback noaa_datetime garbled_store = ([], Some ValueError)"
  by (simp add: garbled_store_def garbled_records_def series_list_def urls_def run_eval
      stamp0 float_abc)

section \<open>Which exceptions the playback can raise\<close>

lemma py_float_error: "py_float s = Inl e \<Longrightarrow> e = ValueError"
  unfolding py_float_def abs_float_def
  by (auto split: list.splits if_splits option.splits sum.splits prod.splits
      simp: map_sum_def)

lemma stamp_of_error: "stamp_of f entry = Inl e \<Longrightarrow> e = KeyError ''t'' \<or> e = DateParseError"
  unfolding stamp_of_def py_getitem_def by (auto split: option.splits)

lemma value_str_of_error:
  "value_str_of param entry = Inl e \<Longrightarrow> e = KeyError ''s'' \<or> e = KeyError ''v'' \<or> e = NameError"
  unfolding value_str_of_def py_getitem_def by (auto split: option.splits if_splits)

lemma play_entry_no_index_error:
  assumes "\<And>records. ds param = Some records \<Longrightarrow> i < length records"
  shows "play_entry f ds i param \<noteq> Inl IndexError"
proof (cases "ds param")
  case None
  then show ?thesis by (simp add: play_entry_def py_getitem_def)
next
  case (Some records)
  with assms have i: "i < length records" by simp
  show ?thesis
  proof
    assume a: "play_entry f ds i param = Inl IndexError"
    show False
    proof (cases "stamp_of f (records ! i)")
      case (Inl e)
      with a Some i stamp_of_error [OF Inl] show False
        by (auto simp: play_entry_def py_getitem_def py_index_def)
    next
      case t: (Inr t)
      show False
      proof (cases "value_str_of param (records ! i)")
        case (Inl e)
        with a Some i t value_str_of_error [OF Inl] show False
          by (auto simp: play_entry_def py_getitem_def py_index_def)
      next
        case v: (Inr v)
        show False
        proof (cases "py_float v")
          case (Inl e)
          with a Some i t v py_float_error [OF Inl] show False
            by (auto simp: play_entry_def py_getitem_def py_index_def split: if_splits)
        next
          case (Inr y)
          with a Some i t v show False
            by (auto simp: play_entry_def py_getitem_def py_index_def split: if_splits)
        qed
      qed
    qed
  qed
qed

lemma play_params_no_index_error:
  assumes "\<And>param records. ds param = Some records \<Longrightarrow> i < length records"
  shows "snd (play_params f ds i params) \<noteq> Some IndexError"
proof (induction params)
  case Nil
  show ?case by simp
next
  case (Cons param params)
  have "play_entry f ds i param \<noteq> Inl IndexError"
    using assms by (rule play_entry_no_index_error)
  with Cons show ?case
    by (cases "play_entry f ds i param") (auto split: prod.splits)
qed

lemma play_from_no_index_error:
  assumes "\<And>i param records. i \<in> set is \<Longrightarrow> ds param = Some records \<Longrightarrow> i < length records"
  shows "snd (play_from f ds is) \<noteq> Some IndexError"
  using assms
proof (induction "is")
  case Nil
  show ?case by simp
next
  case (Cons i "is")
  have a: "snd (play_params f ds i series_list) \<noteq> Some IndexError"
    by (rule play_params_no_index_error) (simp add: Cons.prems)
  have b: "snd (play_from f ds is) \<noteq> Some IndexError"
    by (rule Cons.IH) (simp add: Cons.prems)
  from a b show ?case
    by (auto split: prod.splits option.splits)
qed

section \<open>Positional lookups stay in bounds\<close>

text \<open>
  C9.  If every series present in the Dataset is at least as long as the wind series,
  the playback never ends in IndexError; every position the outer loop visits is below
  the length of the wind series, and the lookup of that position in any series present
  returns the record there.
\<close>

theorem positional_lookups_in_bounds:
  assumes "\<forall>wind param records. ds ''wind'' = Some wind \<longrightarrow> ds param = Some records
      \<longrightarrow> length wind \<le> length records"
  shows "snd (playback f ds) \<noteq> Some IndexError
     \<and> (\<forall>wind param records i. ds ''wind'' = Some wind \<longrightarrow> ds param = Some records
          \<longrightarrow> i \<in> set (py_range (length wind))
          \<longrightarrow> i < length wind \<and> py_index records i = Inr (records ! i))"
proof
  show "snd (playback f ds) \<noteq> Some IndexError"
  proof (cases "ds ''wind''")
    case None
    then show ?thesis by (simp add: playback_def py_getitem_def)
  next
    case (Some wind)
    have "snd (play_from f ds (py_range (length wind))) \<noteq> Some IndexError"
    proof (rule play_from_no_index_error)
      fix i param records
      assume "i \<in> set (py_range (length wind))" "ds param = Some records"
      with assms Some show "i < length records"
        by (fastforce simp: py_range_def)
    qed
    with Some show ?thesis by (simp add: playback_def py_getitem_def)
  qed
  show "\<forall>wind param records i. ds ''wind'' = Some wind \<longrightarrow> ds param = Some records
          \<longrightarrow> i \<in> set (py_range (length wind))
          \<longrightarrow> i < length wind \<and> py_index records i = Inr (records ! i)"
    using assms by (fastforce simp: py_range_def py_index_def)
qed

theorem positional_lookups_in_bounds_witness:
  "\<not> (\<exists>wind param records. sample_store ''wind'' = Some wind
        \<and> sample_store param = Some records \<and> length records < length wind)
   \<and> snd (playback noaa_datetime sample_store) \<noteq> Some IndexError
   \<and> py_index sample_records 1 = Inr (sample_records ! 1)"
proof -
  have s: "sample_store param = Some records \<Longrightarrow> records = sample_records" for param records
    by (auto simp: sample_store_def series_list_def urls_def split: if_splits)
  have h: "\<forall>wind param records. sample_store ''wind'' = Some wind
      \<longrightarrow> sample_store param = Some records \<longrightarrow> length wind \<le> length records"
  proof (intro allI impI)
    fix wind param records
    assume "sample_store ''wind'' = Some wind" "sample_store param = Some records"
    with s [of "''wind''" wind] s [of param records]
    show "length wind \<le> length records" by simp
  qed
  have w: "sample_store ''wind'' = Some sample_records"
    by (simp add: sample_store_def series_list_def urls_def)
  have i: "1 \<in> set (py_range (length sample_records))"
    by (simp add: py_range_def sample_records_def)
  have n: "\<not> (\<exists>wind param records. sample_store ''wind'' = Some wind
        \<and> sample_store param = Some records \<and> length records < length wind)"
    using h by (meson not_le)
  note c = positional_lookups_in_bounds [OF h, of noaa_datetime]
  from c have a: "snd (playback noaa_datetime sample_store) \<noteq> Some IndexError"
    by (rule conjunct1)
  from c w i have b: "py_index sample_records 1 = Inr (sample_records ! 1)"
    by blast
  from n a b show ?thesis by blast
qed

section \<open>Where the points of a run come from\<close>

lemma fetch_step_printed:
  "\<forall>ev\<in>set (printed st). \<not> is_add ev \<Longrightarrow>
     \<forall>ev\<in>set (printed (fst (fetch_step f http st (param, url)))). \<not> is_add ev"
  unfolding fetch_step_def
  by (auto split: option.splits simp: collect_printed)

lemma fetch_loop_printed:
  "\<forall>ev\<in>set (printed st). \<not> is_add ev \<Longrightarrow>
     \<forall>ev\<in>set (printed (fst (fetch_loop f http st items))). \<not> is_add ev"
proof (induction items arbitrary: st)
  case Nil
  then show ?case by simp
next
  case (Cons pu rest)
  obtain param url where pu: "pu = (param, url)" by (cases pu)
  obtain st1 r where s: "fetch_step f http st (param, url) = (st1, r)"
    by (cases "fetch_step f http st (param, url)")
  from fetch_step_printed [OF Cons.prems, of f http param url] s
  have p1: "\<forall>ev\<in>set (printed st1). \<not> is_add ev" by simp
  show ?case
  proof (cases r)
    case None
    with s pu Cons.IH [OF p1] show ?thesis by simp
  next
    case (Some e)
    with s pu p1 show ?thesis by simp
  qed
qed

lemma play_entry_add:
  assumes "play_entry f ds i param = Inr (AddPoint p x y)"
  shows "\<exists>records entry t. ds p = Some records \<and> entry \<in> set records
     \<and> stamp_of f entry = Inr t \<and> x = ms_of t"
proof -
  from assms obtain records t v where r: "ds p = Some records" "i < length records"
    and t: "stamp_of f (records ! i) = Inr t" and x: "x = ms_of t"
    unfolding play_entry_def py_getitem_def py_index_def
    by (auto split: option.splits sum.splits if_splits)
  from r(2) have "records ! i \<in> set records" by simp
  with r(1) t x show ?thesis by blast
qed

lemma play_params_add:
  "AddPoint p x y \<in> set (fst (play_params f ds i params)) \<Longrightarrow>
     \<exists>records entry t. ds p = Some records \<and> entry \<in> set records
       \<and> stamp_of f entry = Inr t \<and> x = ms_of t"
proof (induction params)
  case Nil
  then show ?case by simp
next
  case (Cons param params)
  show ?case
  proof (cases "play_entry f ds i param")
    case (Inl e)
    with Cons.prems show ?thesis by simp
  next
    case (Inr ev)
    with Cons.prems have "ev = AddPoint p x y
        \<or> AddPoint p x y \<in> set (fst (play_params f ds i params))"
      by (auto split: prod.splits)
    then show ?thesis
    proof
      assume "ev = AddPoint p x y"
      with Inr have "play_entry f ds i param = Inr (AddPoint p x y)" by simp
      then show ?thesis by (rule play_entry_add)
    next
      assume "AddPoint p x y \<in> set (fst (play_params f ds i params))"
      then show ?thesis by (rule Cons.IH)
    qed
  qed
qed

lemma play_from_add:
  "AddPoint p x y \<in> set (fst (play_from f ds is)) \<Longrightarrow>
     \<exists>records entry t. ds p = Some records \<and> entry \<in> set records
       \<and> stamp_of f entry = Inr t \<and> x = ms_of t"
proof (induction "is")
  case Nil
  then show ?case by simp
next
  case (Cons i "is")
  from Cons.prems have "AddPoint p x y \<in> set (fst (play_params f ds i series_list))
      \<or> AddPoint p x y \<in> set (fst (play_from f ds is))"
    by (auto split: prod.splits option.splits)
  then show ?case
    using play_params_add Cons.IH by blast
qed

lemma playback_add:
  assumes "AddPoint p x y \<in> set (fst (playback f ds))"
  shows "\<exists>records entry t. ds p = Some records \<and> entry \<in> set records
       \<and> stamp_of f entry = Inr t \<and> x = ms_of t"
proof (cases "ds ''wind''")
  case None
  with assms show ?thesis by (simp add: playback_def py_getitem_def)
next
  case (Some wind)
  with assms have "AddPoint p x y \<in> set (fst (play_from f ds (py_range (length wind))))"
    by (simp add: playback_def py_getitem_def)
  then show ?thesis by (rule play_from_add)
qed

lemma ms_of_mono: "value_of a \<le> value_of b \<Longrightarrow> ms_of a \<le> ms_of b"
  by (simp add: ms_of_def divide_right_mono)

lemma dataset_run: "dataset (run f http) = data_store (fst (fetch_all f http))"
  by (simp add: run_def split: prod.splits option.splits sum.splits)

section \<open>Every point of a proper Dataset lies within the interval of the time axis\<close>

text \<open>
  C10, as amended.  In every run of the script in which no record of the Dataset has
  \<^verbatim>\<open>NaT\<close> for its timestamp, whatever the six responses are and however the run ends,
  each point appended to a series has its x-coordinate, the timestamp's
  \<^verbatim>\<open>value / 10**6\<close>, within the closed interval \<open>[min_time_ms, max_time_ms]\<close> that was
  set on the time axis: the record it comes from is in the Dataset, so its timestamp
  is in the pool that the interval was computed from, with the same conversion.
\<close>

theorem points_within_axis_interval:
  assumes "AddPoint param x y \<in> set (events (run f http))"
    and "\<forall>p records entry. dataset (run f http) p = Some records \<longrightarrow> entry \<in> set records
          \<longrightarrow> stamp_of f entry \<noteq> Inr NaT"
  shows "\<exists>min_time_ms max_time_ms.
      x_interval (run f http) = Some (min_time_ms, max_time_ms)
    \<and> min_time_ms \<le> x \<and> x \<le> max_time_ms"
proof -
  obtain st r where fa: "fetch_all f http = (st, r)" by (cases "fetch_all f http")
  have np: "\<forall>ev\<in>set (printed st). \<not> is_add ev"
    using fetch_loop_printed [of start f http urls] fa
    by (simp add: fetch_all_def start_def)
  then have nm: "AddPoint param x y \<notin> set (printed st)" by fastforce
  show ?thesis
  proof (cases r)
    case (Some e)
    with fa assms(1) nm show ?thesis by (simp add: run_def)
  next
    case None
    with fa have ok: "fetch_all f http = (st, None)" by simp
    have pl: "pooled f st" and so: "sourced f st"
      using ok by (rule fetch_all_invariants)+
    have pr: "proper (timestamps st)"
      unfolding proper_def list_all_iff
    proof
      fix t
      assume "t \<in> set (timestamps st)"
      with so obtain p records entry where
        "data_store st p = Some records" "entry \<in> set records" "stamp_of f entry = Inr t"
        unfolding sourced_def by blast
      with assms(2) fa show "t \<noteq> NaT" by (auto simp: dataset_run)
    qed
    show ?thesis
    proof (cases "time_range (timestamps st)")
      case (Inl e)
      with ok assms(1) nm show ?thesis by (simp add: run_def)
    next
      case (Inr range)
      obtain lo hi where range: "range = (lo, hi)" by (cases range)
      obtain evs r' where pb: "playback f (data_store st) = (evs, r')"
        by (cases "playback f (data_store st)")
      from ok Inr range pb have
        ev: "events (run f http) = printed st @ evs"
        and iv: "x_interval (run f http) = Some (ms_of lo, ms_of hi)"
        by (simp_all add: run_def)
      from assms(1) ev nm have "AddPoint param x y \<in> set (fst (playback f (data_store st)))"
        by (simp add: pb)
      from playback_add [OF this] obtain records entry t where
        e: "data_store st param = Some records" "entry \<in> set records"
          "stamp_of f entry = Inr t" "x = ms_of t"
        by blast
      from pl e(1,2,3) have "t \<in> set (timestamps st)"
        unfolding pooled_def by fastforce
      with time_range_bounds [of "timestamps st" lo hi] Inr range pr
      have "value_of lo \<le> value_of t \<and> value_of t \<le> value_of hi" by simp
      with e(4) iv show ?thesis by (simp add: ms_of_mono)
    qed
  qed
qed

theorem points_within_axis_interval_witness:
  "AddPoint ''wind'' 1728345600000 (Finite 2.5) \<in> set (events (run noaa_datetime http_ok))
   \<and> \<not> (\<exists>p records entry. dataset (run noaa_datetime http_ok) p = Some records
          \<and> entry \<in> set records \<and> stamp_of noaa_datetime entry = Inr NaT)
   \<and> x_interval (run noaa_datetime http_ok) = Some (1728345600000, 1728345960000)
   \<and> (\<exists>min_time_ms max_time_ms.
      x_interval (run noaa_datetime http_ok) = Some (min_time_ms, max_time_ms)
    \<and> min_time_ms \<le> 1728345600000 \<and> 1728345600000 \<le> max_time_ms)"
proof -
  have a: "AddPoint ''wind'' 1728345600000 (Finite 2.5)
      \<in> set (events (run noaa_datetime http_ok))"
    by (simp add: run_eval sample_eval)
  have b: "x_interval (run noaa_datetime http_ok) = Some (1728345600000, 1728345960000)"
    by (simp add: run_eval sample_eval)
  have d: "records = sample_records"
    if "dataset (run noaa_datetime http_ok) p = Some records" for p records
    using that by (simp add: dataset_run fetch_all_def start_def urls_def fetch_step_def
        stamp_of_def py_getitem_def sample_eval split: if_splits)
  have s: "stamp_of noaa_datetime entry \<noteq> Inr NaT" if "entry \<in> set sample_records" for entry
    using that by (auto simp: sample_records_def stamp_of_def py_getitem_def stamp0 stamp1)
  have h: "\<forall>p records entry. dataset (run noaa_datetime http_ok) p = Some records
      \<longrightarrow> entry \<in> set records \<longrightarrow> stamp_of noaa_datetime entry \<noteq> Inr NaT"
    using d s by blast
  then have n: "\<not> (\<exists>p records entry. dataset (run noaa_datetime http_ok) p = Some records
          \<and> entry \<in> set records \<and> stamp_of noaa_datetime entry = Inr NaT)"
    by blast
  from points_within_axis_interval [OF a h] a b n show ?thesis by blast
qed

text \<open>
  C10 as stated fails where a record has an empty timestamp.  With the records at
  \<^verbatim>\<open>2024-10-08 00:00\<close> and at the empty stamp in every series, \<^verbatim>\<open>min\<close> and \<^verbatim>\<open>max\<close> pass
  over the \<^verbatim>\<open>NaT\<close> of the second record, the interval set on the axis is that instant
  twice, and the second turn of the playback appends the wind's point at the \<^verbatim>\<open>value\<close>
  of \<^verbatim>\<open>NaT\<close> in milliseconds, far below the interval.
\<close>

theorem nat_point_outside_interval_counterexample:
  "AddPoint ''wind'' (ms_of NaT) (Finite 2.5)
      \<in> set (events (run noaa_datetime http_blank_stamp))
   \<and> x_interval (run noaa_datetime http_blank_stamp) = Some (1728345600000, 1728345600000)
   \<and> ms_of NaT < 1728345600000
   \<and> raised (run noaa_datetime http_blank_stamp) = None"
  by (simp add: run_eval sample_eval sample_eval2)

section \<open>What the playback does to one series\<close>

lemma points_of_append: "points_of p (xs @ ys) = points_of p xs @ points_of p ys"
  by (induction p xs rule: points_of.induct) auto

lemma skips_of_append: "skips_of p (xs @ ys) = skips_of p xs @ skips_of p ys"
  by (induction p xs rule: skips_of.induct) auto

lemma play_entry_event:
  assumes "play_entry f ds i param = Inr ev"
  shows "(\<exists>x y. ev = AddPoint param x y) \<or> (\<exists>t. ev = PrintMissing param t)"
  using assms unfolding play_entry_def
  by (auto split: sum.splits if_splits)

lemma play_params_other:
  "p \<notin> set params \<Longrightarrow>
     points_of p (fst (play_params f ds i params)) = []
     \<and> skips_of p (fst (play_params f ds i params)) = []"
proof (induction params)
  case Nil
  show ?case by simp
next
  case (Cons param params)
  then have ne: "param \<noteq> p" and ih: "points_of p (fst (play_params f ds i params)) = []
     \<and> skips_of p (fst (play_params f ds i params)) = []"
    by auto
  show ?case
  proof (cases "play_entry f ds i param")
    case (Inl e)
    then show ?thesis by simp
  next
    case (Inr ev)
    from play_entry_event [OF Inr] ne ih Inr show ?thesis
      by (auto split: prod.splits)
  qed
qed

lemma map_shown_other:
  "p \<notin> set params \<Longrightarrow> \<forall>param\<in>set params. \<exists>ev. play_entry f ds i param = Inr ev \<Longrightarrow>
     points_of p (map (shown f ds i) params) = []
     \<and> skips_of p (map (shown f ds i) params) = []"
  using play_params_other [of p params f ds i] play_params_ok [of params f ds i]
  by simp

lemma series_list_wind: "series_list = ''wind'' # tl series_list \<and> ''wind'' \<notin> set (tl series_list)"
  by (simp add: series_list_def urls_def)

lemmas wind_eval = wind_store_def short_store_def wind_records_def

section \<open>The wind series of two records, one without a value\<close>

text \<open>
  C5, as amended.  Let the wind series of the Dataset be exactly
  \<^verbatim>\<open>[{t: T0, s: "2.5"}, {t: T1, s: ""}]\<close> with \<open>T0\<close> and \<open>T1\<close> readable timestamps, and let
  each of the six parameters have a first record that is well formed (its timestamp
  can be read and its value field is there, empty or accepted by \<^verbatim>\<open>float\<close>).  Then, however
  the playback ends, the wind series holds exactly one point, at \<open>T0\<close> in milliseconds
  with the value 2.5 read from the field \<^verbatim>\<open>s\<close>, and exactly one skip was logged for the
  wind, the one for \<open>T1\<close>, nothing being appended for the wind at that position.  The
  wind reads the field \<^verbatim>\<open>s\<close> of a record, each of the other five parameters the field
  \<^verbatim>\<open>v\<close>.
\<close>

theorem wind_series_one_point_one_skip:
  assumes w: "ds ''wind'' = Some [e0, e1]"
    and e0: "e0 ''t'' = Some T0" "e0 ''s'' = Some ''2.5''"
    and e1: "e1 ''t'' = Some T1" "e1 ''s'' = Some ''''"
    and t: "f T0 = Some t0" "f T1 = Some t1"
    and r: "replayable f ds 1"
  shows "points_of ''wind'' (fst (playback f ds)) = [(ms_of t0, Finite 2.5)]
     \<and> skips_of ''wind'' (fst (playback f ds)) = [t1]
     \<and> value_str_of ''wind'' e = py_getitem e ''s''
     \<and> (\<forall>param\<in>set series_list. param \<noteq> ''wind'' \<longrightarrow> value_str_of param e = py_getitem e ''v'')"
proof -
  let ?others = "tl series_list"
  have sl: "series_list = ''wind'' # ?others" and nw: "''wind'' \<notin> set ?others"
    using series_list_wind by simp_all
  have p0: "play_entry f ds 0 ''wind'' = Inr (AddPoint ''wind'' (ms_of t0) (Finite 2.5))"
    using w e0 t(1)
    by (simp add: play_entry_def py_getitem_def py_index_def stamp_of_def value_str_of_def
        float_2_5)
  have p1: "play_entry f ds (Suc 0) ''wind'' = Inr (PrintMissing ''wind'' t1)"
    using w e1 t(2)
    by (simp add: play_entry_def py_getitem_def py_index_def stamp_of_def value_str_of_def)
  have all0: "\<forall>param\<in>set series_list. \<exists>ev. play_entry f ds 0 param = Inr ev"
    using replayable_entry [OF r, of _ 0] by simp
  then have oth0: "\<forall>param\<in>set ?others. \<exists>ev. play_entry f ds 0 param = Inr ev"
    by (subst (asm) sl) simp
  have it0: "play_params f ds 0 series_list = (map (shown f ds 0) series_list, None)"
    using all0 by (rule play_params_ok)
  have s0: "shown f ds 0 ''wind'' = AddPoint ''wind'' (ms_of t0) (Finite 2.5)"
    by (simp add: shown_def p0)
  have m0: "map (shown f ds 0) series_list
      = AddPoint ''wind'' (ms_of t0) (Finite 2.5) # map (shown f ds 0) ?others"
    by (subst sl) (simp add: s0)
  note o0 = map_shown_other [OF nw oth0]
  obtain evs1 r1 where q1: "play_params f ds (Suc 0) ?others = (evs1, r1)"
    by (cases "play_params f ds (Suc 0) ?others")
  from play_params_other [OF nw, of f ds "Suc 0"] q1
  have o1: "points_of ''wind'' evs1 = []" "skips_of ''wind'' evs1 = []" by simp_all
  have it1: "play_params f ds (Suc 0) series_list = (PrintMissing ''wind'' t1 # evs1, r1)"
    by (subst sl) (simp add: p1 q1)
  have pb: "playback f ds = play_from f ds [0, Suc 0]"
    using w by (simp add: playback_def py_getitem_def py_range_def upt_rec)
  have "points_of ''wind'' (fst (play_from f ds [0, Suc 0])) = [(ms_of t0, Finite 2.5)]
     \<and> skips_of ''wind'' (fst (play_from f ds [0, Suc 0])) = [t1]"
    using o0 o1
    by (cases r1) (simp_all add: it0 it1 m0 points_of_append skips_of_append)
  moreover have "value_str_of ''wind'' e = py_getitem e ''s''"
    by (simp add: value_str_of_def)
  moreover have "\<forall>param\<in>set series_list. param \<noteq> ''wind''
      \<longrightarrow> value_str_of param e = py_getitem e ''v''"
    by (simp add: value_str_of_def series_list_def urls_def)
  ultimately show ?thesis by (simp add: pb)
qed

theorem wind_series_one_point_one_skip_witness:
  "wind_store ''wind'' = Some wind_records
   \<and> noaa_datetime ''2024-10-08 00:00'' = Some (Stamp False 1728345600000000000)
   \<and> noaa_datetime ''2024-10-08 00:06'' = Some (Stamp False 1728345960000000000)
   \<and> replayable noaa_datetime wind_store 1
   \<and> points_of ''wind'' (fst (playback noaa_datetime wind_store))
       = [(ms_of (Stamp False 1728345600000000000), Finite 2.5)]
   \<and> skips_of ''wind'' (fst (playback noaa_datetime wind_store))
       = [Stamp False 1728345960000000000]"
proof -
  have w: "wind_store ''wind''
      = Some [[''t'' \<mapsto> ''2024-10-08 00:00'', ''s'' \<mapsto> ''2.5''],
              [''t'' \<mapsto> ''2024-10-08 00:06'', ''s'' \<mapsto> '''']]"
    by (simp add: wind_eval)
  have r: "replayable noaa_datetime wind_store 1"
    by (simp add: wind_eval store_eval)
  from wind_series_one_point_one_skip [where f = noaa_datetime and ds = wind_store, OF w _ _ _ _ stamp0 stamp1 r]
    w r stamp0 stamp1
  show ?thesis by (simp add: wind_records_def)
qed

text \<open>
  C5 as stated fails: it asks nothing of the other five series.  Where the wind has
  the two records and the other five series have none, the playback raises IndexError
  at the first position, right after the wind's point, and no skip is ever logged.
\<close>

theorem wind_skip_lost_counterexample:
  "short_store ''wind''
      = Some [[''t'' \<mapsto> ''2024-10-08 00:00'', ''s'' \<mapsto> ''2.5''],
              [''t'' \<mapsto> ''2024-10-08 00:06'', ''s'' \<mapsto> '''']]
   \<and> playback noaa_datetime short_store
       = ([AddPoint ''wind'' 1728345600000 (Finite 2.5)], Some IndexError)
   \<and> skips_of ''wind'' (fst (playback noaa_datetime short_store)) = []"
  by (simp add: wind_eval run_eval sample_eval)

section \<open>Decimal literals convert to finite floats\<close>

lemma digits_tail_run:
  "list_all is_digit ds \<Longrightarrow> r = [] \<or> (\<not> is_digit (hd r) \<and> hd r \<noteq> CHR ''_'') \<Longrightarrow>
     digits_tail (ds @ r) = (ds, r)"
proof (induction ds)
  case Nil
  then show ?case by (cases r) auto
next
  case (Cons d ds)
  then show ?case by simp
qed

lemma digitpart_run:
  assumes "ds \<noteq> []" "list_all is_digit ds"
    and "r = [] \<or> (\<not> is_digit (hd r) \<and> hd r \<noteq> CHR ''_'')"
  shows "digitpart (ds @ r) = Some (ds, r)"
proof -
  from assms(1) obtain d ds' where ds: "ds = d # ds'" by (cases ds) auto
  with assms(2) have d: "is_digit d" and ds': "list_all is_digit ds'" by simp_all
  from digits_tail_run [OF ds' assms(3)] d show ?thesis
    by (simp add: digitpart_def ds)
qed

lemma digit_val_le: "is_digit c \<Longrightarrow> digit_val c \<le> 9"
  unfolding is_digit_def digit_val_def by arith

lemma foldl_digits_bound:
  "list_all is_digit ds \<Longrightarrow>
     foldl (\<lambda>n c. 10 * n + digit_val c) a ds < (a + 1) * 10 ^ length ds"
proof (induction ds arbitrary: a)
  case Nil
  show ?case by simp
next
  case (Cons c ds)
  then have c: "digit_val c \<le> 9" and ds: "list_all is_digit ds"
    by (simp_all add: digit_val_le)
  from Cons.IH [OF ds, of "10 * a + digit_val c"]
  have "foldl (\<lambda>n c. 10 * n + digit_val c) (10 * a + digit_val c) ds
      < (10 * a + digit_val c + 1) * 10 ^ length ds" .
  also have "\<dots> \<le> (10 * a + 10) * 10 ^ length ds"
    using c by (intro mult_right_mono) simp_all
  also have "\<dots> = (a + 1) * 10 ^ length (c # ds)" by (simp add: algebra_simps)
  finally show ?case by simp
qed

lemma nat_of_digits_bound: "list_all is_digit ds \<Longrightarrow> nat_of_digits ds < 10 ^ length ds"
  using foldl_digits_bound [of ds 0] by (simp add: nat_of_digits_def)

lemma double_range: "(10::real) ^ 308 < 2 ^ 1024 - 2 ^ 970"
  by simp

lemma decimal_in_range:
  assumes "list_all is_digit ip" "list_all is_digit fp" "length ip \<le> 308"
  shows "\<bar>real (nat_of_digits (ip @ fp)) / 10 ^ length fp\<bar> < 2 ^ 1024 - 2 ^ 970"
proof -
  have "nat_of_digits (ip @ fp) < 10 ^ length (ip @ fp)"
    using assms(1,2) by (intro nat_of_digits_bound) simp
  then have "real (nat_of_digits (ip @ fp)) < 10 ^ length (ip @ fp)"
    by (metis of_nat_less_iff of_nat_numeral of_nat_power)
  then have "real (nat_of_digits (ip @ fp)) < 10 ^ length ip * 10 ^ length fp"
    by (simp add: power_add)
  then have "real (nat_of_digits (ip @ fp)) / 10 ^ length fp < 10 ^ length ip"
    by (simp add: pos_divide_less_eq)
  also have "(10::real) ^ length ip \<le> 10 ^ 308"
    using assms(3) by (intro power_increasing) simp_all
  also note double_range
  finally show ?thesis by simp
qed

lemma not_word: "is_digit d \<Longrightarrow> map lower (d # u) \<noteq> ''inf''
    \<and> map lower (d # u) \<noteq> ''infinity'' \<and> map lower (d # u) \<noteq> ''nan''"
  by (auto simp: is_digit_def lower_def)

lemma abs_float_decimal:
  assumes "ip \<noteq> []" "list_all is_digit ip" "length ip \<le> 308" "list_all is_digit fp"
    and r: "r = (if fp = [] then [] else CHR ''.'' # fp)"
  shows "abs_float (ip @ r)
      = Inr (Finite (real (nat_of_digits (ip @ fp)) / 10 ^ length fp))"
proof -
  from assms(1) obtain d ip' where ip: "ip = d # ip'" by (cases ip) auto
  with assms(2) have d: "is_digit d" by simp
  have sep: "r = [] \<or> (\<not> is_digit (hd r) \<and> hd r \<noteq> CHR ''_'')"
    by (simp add: r is_digit_def)
  have dp: "digitpart (ip @ r) = Some (ip, r)"
    using assms(1,2) sep by (rule digitpart_run)
  have nb: "number (ip @ r) = Some (ip, fp, [])"
  proof (cases "fp = []")
    case True
    with dp r show ?thesis by (simp add: number_def)
  next
    case False
    have "digitpart (fp @ []) = Some (fp, [])"
      using False assms(4) by (intro digitpart_run) simp_all
    with dp r False show ?thesis by (simp add: number_def)
  qed
  have sc: "scale10 m (0 - int (length fp)) = m / 10 ^ length fp" for m
    by (simp add: scale10_def)
  have ex: "exponent [] = Some 0" by (simp add: exponent_def)
  have td: "to_double (real (nat_of_digits (ip @ fp)) / 10 ^ length fp)
      = Finite (real (nat_of_digits (ip @ fp)) / 10 ^ length fp)"
    using decimal_in_range [OF assms(2,4,3)] unfolding to_double_def by (rule if_P)
  have w: "\<not> (map lower (ip @ r) = ''inf'' \<or> map lower (ip @ r) = ''infinity'')"
    "map lower (ip @ r) \<noteq> ''nan''"
    using not_word [OF d, of "ip' @ r"] by (simp_all add: ip)
  have "abs_float (ip @ r)
      = Inr (to_double (scale10 (real (nat_of_digits (ip @ fp))) (0 - int (length fp))))"
    unfolding abs_float_def using w nb ex by simp
  then show ?thesis by (simp only: sc td)
qed

lemma strip_id: "s \<noteq> [] \<Longrightarrow> \<not> is_space (hd s) \<Longrightarrow> \<not> is_space (last s) \<Longrightarrow> strip s = s"
proof -
  assume s: "s \<noteq> []" and h: "\<not> is_space (hd s)" and l: "\<not> is_space (last s)"
  from s h have a: "dropWhile is_space s = s" by (cases s) auto
  from s l have "dropWhile is_space (rev s) = rev s"
    by (cases "rev s") (auto simp: last_rev [symmetric] hd_rev)
  with a show ?thesis by (simp add: strip_def)
qed

lemma digit_plain: "is_digit c \<Longrightarrow> \<not> is_space c \<and> (of_char c :: nat) < 128
    \<and> c \<noteq> CHR ''-'' \<and> c \<noteq> CHR ''+''"
  by (auto simp: is_digit_def is_space_def)

lemma decimal_literal_float:
  assumes "decimal_literal v"
  shows "py_float v = Inr (Finite (decimal_value v))"
proof -
  define u where "u = unsigned v"
  define ip where "ip = takeWhile is_digit u"
  define r where "r = dropWhile is_digit u"
  define fp where "fp = tl r"
  from assms have ne: "ip \<noteq> []" and len: "length ip \<le> 308"
    and rr: "r = [] \<or> (hd r = CHR ''.'' \<and> tl r \<noteq> [] \<and> list_all is_digit (tl r))"
    unfolding decimal_literal_def ip_def r_def u_def by (simp_all add: Let_def)
  have u: "u = ip @ r" by (simp add: ip_def r_def)
  have dip: "list_all is_digit ip"
    unfolding ip_def list_all_iff by (auto dest: set_takeWhileD)
  have dfp: "list_all is_digit fp" using rr by (auto simp: fp_def)
  have r: "r = (if fp = [] then [] else CHR ''.'' # fp)"
    using rr by (cases r) (auto simp: fp_def)
  let ?q = "real (nat_of_digits (ip @ fp)) / 10 ^ length fp"
  have af: "abs_float u = Inr (Finite ?q)"
    unfolding u using ne dip len dfp r by (rule abs_float_decimal)
  from ne obtain d ip' where ip: "ip = d # ip'" by (cases ip) auto
  with dip have d: "is_digit d" by simp
  have lastu: "is_digit (last u)"
  proof (cases "fp = []")
    case True
    with r u ne dip show ?thesis by (auto simp: list_all_iff)
  next
    case False
    with r u dfp show ?thesis by (auto simp: list_all_iff)
  qed
  have asc_u: "list_all (\<lambda>c. (of_char c :: nat) < 128) u"
    using dip dfp r unfolding u list_all_iff by (auto dest: digit_plain [rule_format])
  have dv: "decimal_value v = (if u = v then ?q else - ?q)"
    by (simp add: decimal_value_def Let_def u_def ip_def r_def fp_def)
  show ?thesis
  proof (cases "u = v")
    case True
    then have v: "v = d # ip' @ r" using u ip by simp
    have "to_ascii v = v" using asc_u True by (simp add: to_ascii_def)
    moreover have "strip v = v"
      using lastu d True u ip by (intro strip_id) (auto dest: digit_plain)
    ultimately have "py_float v = abs_float v"
      using d by (simp add: py_float_def v digit_plain)
    with af True dv show ?thesis by simp
  next
    case False
    then have v: "v = CHR ''-'' # u"
      unfolding u_def unsigned_def by (auto split: list.splits if_splits)
    have un: "u \<noteq> []" using u ne by simp
    have "to_ascii v = v" using asc_u by (simp add: to_ascii_def v)
    moreover have "strip v = v"
      using lastu un by (intro strip_id) (auto simp: v is_space_def dest: digit_plain)
    ultimately have "py_float v = map_sum id negate (abs_float u)"
      by (simp add: py_float_def v)
    with af False dv show ?thesis by (simp add: negate_def)
  qed
qed

section \<open>A value is skipped exactly when its field is empty\<close>

text \<open>
  C4, as amended.  Take a record the playback reaches, with a timestamp that can be
  read and the value field of its parameter present.  The value is skipped (a skip is
  logged and nothing appended) exactly when the field is the empty string.  A field
  that is a decimal literal, that is an optional minus sign, one to 308 digits and
  optionally a point and more digits, is appended as the finite float it denotes.  For
  any other field that is not empty the renderer applies \<^verbatim>\<open>float\<close> to it: if the
  conversion succeeds the point appended carries that float, and if it does not the
  playback raises ValueError.
\<close>

theorem value_skipped_iff_empty:
  assumes "ds param = Some records" "i < length records" "param \<in> set series_list"
    and "(records ! i) ''t'' = Some s" "f s = Some t"
    and "(records ! i) (value_field param) = Some v"
  shows "(play_entry f ds i param = Inr (PrintMissing param t) \<longleftrightarrow> v = '''')
     \<and> (decimal_literal v \<longrightarrow>
          play_entry f ds i param
            = Inr (AddPoint param (ms_of t) (Finite (decimal_value v))))
     \<and> (v \<noteq> '''' \<longrightarrow>
          (\<forall>y_value. py_float v = Inr y_value \<longrightarrow>
              play_entry f ds i param = Inr (AddPoint param (ms_of t) y_value))
        \<and> (\<forall>e. py_float v = Inl e \<longrightarrow>
              e = ValueError \<and> play_entry f ds i param = Inl ValueError))"
proof -
  have st: "stamp_of f (records ! i) = Inr t"
    using assms(4,5) by (simp add: stamp_of_def py_getitem_def)
  have vs: "value_str_of param (records ! i) = Inr v"
    using assms(6) by (simp add: value_str_of_series [OF assms(3)] py_getitem_def)
  have pe: "play_entry f ds i param
      = (if v \<noteq> [] then
           (case py_float v of
              Inl e \<Rightarrow> Inl e
            | Inr y_value \<Rightarrow> Inr (AddPoint param (ms_of t) y_value))
         else Inr (PrintMissing param t))"
    using assms(1,2) st vs by (simp add: play_entry_def py_getitem_def py_index_def)
  have c1: "play_entry f ds i param = Inr (PrintMissing param t) \<longleftrightarrow> v = []"
    by (simp add: pe split: sum.splits)
  have c2: "play_entry f ds i param
      = Inr (AddPoint param (ms_of t) (Finite (decimal_value v)))" if "decimal_literal v"
  proof -
    from that have "v \<noteq> []"
      by (auto simp: decimal_literal_def unsigned_def Let_def)
    with decimal_literal_float [OF that] show ?thesis by (simp add: pe)
  qed
  have c3: "play_entry f ds i param = Inr (AddPoint param (ms_of t) y)"
    if "v \<noteq> []" "py_float v = Inr y" for y
    using that by (simp add: pe)
  have c4: "e = ValueError \<and> play_entry f ds i param = Inl ValueError"
    if "v \<noteq> []" "py_float v = Inl e" for e
    using that py_float_error [OF that(2)] by (simp add: pe)
  from c1 c2 c3 c4 show ?thesis by blast
qed

theorem value_skipped_iff_empty_witness:
  "sample_store ''wind'' = Some sample_records
   \<and> ''wind'' \<in> set series_list
   \<and> (sample_records ! 0) ''t'' = Some ''2024-10-08 00:00''
   \<and> noaa_datetime ''2024-10-08 00:00'' = Some (Stamp False 1728345600000000000)
   \<and> (sample_records ! 0) (value_field ''wind'') = Some ''2.5''
   \<and> decimal_literal ''2.5''
   \<and> play_entry noaa_datetime sample_store 0 ''wind''
       = Inr (AddPoint ''wind'' (ms_of (Stamp False 1728345600000000000))
           (Finite (decimal_value ''2.5'')))
   \<and> play_entry noaa_datetime sample_store 0 ''wind''
       \<noteq> Inr (PrintMissing ''wind'' (Stamp False 1728345600000000000))"
proof -
  have a: "sample_store ''wind'' = Some sample_records"
    by (simp add: store_eval)
  have b: "0 < length sample_records" by (simp add: sample_records_def)
  have c: "''wind'' \<in> set series_list" by (simp add: series_list_def urls_def)
  have d: "(sample_records ! 0) ''t'' = Some ''2024-10-08 00:00''"
    by (simp add: sample_records_def)
  have e: "(sample_records ! 0) (value_field ''wind'') = Some ''2.5''"
    by (simp add: sample_records_def value_field_def)
  have l: "decimal_literal ''2.5''"
    by (simp add: decimal_literal_def unsigned_def is_digit_def)
  from value_skipped_iff_empty [where ds = sample_store and param = "''wind''"
      and records = sample_records and i = 0 and f = noaa_datetime
      and s = "''2024-10-08 00:00''" and t = "Stamp False 1728345600000000000"
      and v = "''2.5''"] a b c d e l stamp0
  show ?thesis by simp
qed

text \<open>
  C4 as stated fails: a non-empty field need not convert, and a field that converts
  need not give a finite float.  On \<^verbatim>\<open>"abc"\<close> the conversion raises ValueError, and
  \<^verbatim>\<open>"nan"\<close> is appended as a point whose value is not finite.
\<close>

theorem float_conversion_counterexample:
  "play_entry noaa_datetime
      [''wind'' \<mapsto> [[''t'' \<mapsto> ''2024-10-08 00:00'', ''s'' \<mapsto> ''abc'']]] 0 ''wind''
     = Inl ValueError
   \<and> ''abc'' \<noteq> ''''
   \<and> play_entry noaa_datetime
      [''wind'' \<mapsto> [[''t'' \<mapsto> ''2024-10-08 00:00'', ''s'' \<mapsto> ''nan'']]] 0 ''wind''
     = Inr (AddPoint ''wind'' 1728345600000 NaN)
   \<and> \<not> is_finite NaN"
  by (simp add: run_eval sample_eval float_eval is_finite_def)

section \<open>A skipped parameter ends the run\<close>

text \<open>
  C7 does not hold of the script.  When the API has no data for the wind and answers
  the other five requests with records, the fetcher skips the wind, the aggregator
  returns the interval, and the playback raises KeyError on \<^verbatim>\<open>data_store['wind']\<close>
  before it draws anything.  When it is the air pressure that is skipped, the playback
  raises KeyError on \<^verbatim>\<open>data_store['air_pressure']\<close> after the first point of the wind.
  When all six are skipped, the aggregator raises ValueError on the empty pool.
\<close>

theorem skipped_parameter_ends_run:
  "raised (run noaa_datetime http_no_wind) = Some (KeyError ''wind'')
   \<and> dataset (run noaa_datetime http_no_wind) ''wind'' = None
   \<and> x_interval (run noaa_datetime http_no_wind) = Some (1728345600000, 1728345960000)
   \<and> raised (run noaa_datetime http_no_pressure) = Some (KeyError ''air_pressure'')
   \<and> events (run noaa_datetime http_no_pressure)
       = [PrintUnexpected ''air_pressure'', AddPoint ''wind'' 1728345600000 (Finite 2.5)]
   \<and> raised (run noaa_datetime (\<lambda>url. Some error_response)) = Some ValueError"
  by (simp add: run_eval sample_eval)

end
